theory Spec2Isabelle
  imports Complex_Main "HOL-Library.Log_Nat" "HOL-Library.List_Lexorder"
begin

section \<open>Python values that reach the handlers\<close>

text \<open>
  A model of \<^verbatim>\<open>app.py\<close>: the validator, the five handlers and the module-level list
  \<^verbatim>\<open>users\<close> they share. Flask's routing, the decoding of JSON and the parsing of CSV are
  taken as given: a handler is a function of what the library hands it and of the list.

  The values the handlers receive are JSON-decoded fields (\<^verbatim>\<open>request.get_json()\<close>) and
  pandas cells (\<^verbatim>\<open>df.to_dict('records')\<close>). Both are scalars here: \<^verbatim>\<open>None\<close>, booleans,
  unbounded integers, floats and strings. A float is a binary64 value: a rational, an
  infinity or NaN. A string is a sequence of 8-bit characters, read as the code points
  U+0000 to U+00FF; whitespace, digits and case are those Python gives these code points.
  Where \<^verbatim>\<open>str.upper\<close> leaves that range, its result is given as a list of code points.
  Not modelled: strings with code points above U+00FF, JSON arrays and objects as field
  values, request bodies that are not a JSON object or \<^verbatim>\<open>None\<close>, and the interpreter's
  limit on the number of digits of an integer it converts to or from a string.
\<close>

datatype pyfloat = Fl rat | PosInf | NegInf | NaN

datatype pyval = PNone | PBool bool | PInt int | PFloat pyfloat | PStr string

datatype pyexc = ValueError | TypeError | OverflowError

subsection \<open>Rounding to binary64\<close>

text \<open>
  \<^verbatim>\<open>float(x)\<close> of an integer or of a decimal literal is the nearest binary64 value, ties to
  even. \<open>ilog2 q\<close> is the binary exponent of a positive rational, \<open>fl_round_mag\<close> rounds a
  positive rational to 53 significant bits (or to a multiple of \<open>2 powi (- 1074)\<close> in the
  subnormal range), and \<open>to_double\<close> adds the sign and the overflow to infinity.
\<close>

definition round_half_even :: "rat \<Rightarrow> int" where
  "round_half_even q =
     (let f = \<lfloor>q\<rfloor>; d = q - of_int f
      in if d < 1 / 2 then f
         else if 1 / 2 < d then f + 1
         else if even f then f else f + 1)"

definition ilog2 :: "rat \<Rightarrow> int" where
  "ilog2 q =
     (let (a, b) = quotient_of q; e0 = bitlen a - bitlen b
      in if 2 powi e0 \<le> q then e0 else e0 - 1)"

definition fl_round_mag :: "rat \<Rightarrow> rat" where
  "fl_round_mag q =
     (let e = max (ilog2 q) (- 1022); ulp = 2 powi (e - 52)
      in of_int (round_half_even (q / ulp)) * ulp)"

definition to_double :: "rat \<Rightarrow> pyfloat" where
  "to_double q =
     (if q = 0 then Fl 0
      else let m = fl_round_mag \<bar>q\<bar>
           in if 2 ^ 1024 \<le> m then (if q < 0 then NegInf else PosInf)
              else Fl (if q < 0 then - m else m))"

subsection \<open>Strings: \<^verbatim>\<open>str.strip\<close>, \<^verbatim>\<open>str.upper\<close>, \<^verbatim>\<open>str.endswith\<close>, \<^verbatim>\<open>str(int)\<close>\<close>

text \<open>
  \<^verbatim>\<open>str.strip()\<close> removes the characters for which \<^verbatim>\<open>str.isspace\<close> holds: tab to carriage
  return, the separators U+001C to U+001F, the space, U+0085 and the no-break space U+00A0.
\<close>

definition py_isspace :: "char \<Rightarrow> bool" where
  "py_isspace c =
     (let n = (of_char c :: nat)
      in (9 \<le> n \<and> n \<le> 13) \<or> (28 \<le> n \<and> n \<le> 32) \<or> n = 133 \<or> n = 160)"

definition py_strip :: "string \<Rightarrow> string" where
  "py_strip s = rev (dropWhile py_isspace (rev (dropWhile py_isspace s)))"

text \<open>
  \<^verbatim>\<open>c.upper()\<close> of a one-character string, as code points: the letters a to z and the
  Latin-1 letters U+00E0 to U+00FE (but not the division sign U+00F7) move down by 32, the
  sharp s U+00DF becomes \<^verbatim>\<open>SS\<close>, the micro sign U+00B5 becomes U+039C and U+00FF becomes
  U+0178; every other character is unchanged.
\<close>

definition py_upper :: "char \<Rightarrow> nat list" where
  "py_upper c =
     (let n = (of_char c :: nat)
      in if 97 \<le> n \<and> n \<le> 122 then [n - 32]
         else if n = 181 then [924]
         else if n = 223 then [83, 83]
         else if 224 \<le> n \<and> n \<le> 254 \<and> n \<noteq> 247 then [n - 32]
         else if n = 255 then [376]
         else [n])"

definition code_points :: "string \<Rightarrow> nat list" where
  "code_points s = map of_char s"

text \<open>The ASCII lower case that \<^verbatim>\<open>float\<close> uses to recognise \<^verbatim>\<open>inf\<close> and \<^verbatim>\<open>nan\<close>.\<close>

definition py_lower_char :: "char \<Rightarrow> char" where
  "py_lower_char c =
     (let n = (of_char c :: nat) in if 65 \<le> n \<and> n \<le> 90 then char_of (n + 32) else c)"

definition py_endswith :: "string \<Rightarrow> string \<Rightarrow> bool" where
  "py_endswith s suf = (length suf \<le> length s \<and> drop (length s - length suf) s = suf)"

fun str_nat :: "nat \<Rightarrow> string" where
  "str_nat n =
     (if n < 10 then [char_of (48 + n)]
      else str_nat (n div 10) @ [char_of (48 + n mod 10)])"

declare str_nat.simps [simp del]

subsection \<open>Numeric literals: \<^verbatim>\<open>int(str)\<close> and \<^verbatim>\<open>float(str)\<close>\<close>

text \<open>
  Both conversions strip surrounding whitespace, take an optional sign and allow single
  underscores between digits. The whitespace they strip is not that of \<^verbatim>\<open>str.strip\<close>:
  it is tab to carriage return and the space, and the two non-ASCII spaces U+0085 and
  U+00A0, which are turned into spaces first; the separators U+001C to U+001F are not
  stripped. \<^verbatim>\<open>int\<close> accepts decimal digits only. \<^verbatim>\<open>float\<close> accepts
  \<^verbatim>\<open>inf\<close>, \<^verbatim>\<open>infinity\<close> and \<^verbatim>\<open>nan\<close> in any case, and decimal literals with an optional
  fraction and exponent; the value is rounded to binary64 and overflows to infinity.
  Anything else raises \<^verbatim>\<open>ValueError\<close>.
\<close>

definition num_isspace :: "char \<Rightarrow> bool" where
  "num_isspace c =
     (let n = (of_char c :: nat) in (9 \<le> n \<and> n \<le> 13) \<or> n = 32 \<or> n = 133 \<or> n = 160)"

definition num_strip :: "string \<Rightarrow> string" where
  "num_strip s = rev (dropWhile num_isspace (rev (dropWhile num_isspace s)))"

definition is_digit :: "char \<Rightarrow> bool" where
  "is_digit c = (let n = (of_char c :: nat) in 48 \<le> n \<and> n \<le> 57)"

definition digit_val :: "char \<Rightarrow> nat" where
  "digit_val c = of_char c - 48"

definition digits_val :: "string \<Rightarrow> nat" where
  "digits_val cs = foldl (\<lambda>acc c. 10 * acc + digit_val c) 0 cs"

fun underscores_ok :: "char option \<Rightarrow> string \<Rightarrow> bool" where
  "underscores_ok prev [] = True"
| "underscores_ok prev (c # cs) =
     (if c = CHR ''_''
      then (case prev of None \<Rightarrow> False | Some p \<Rightarrow> is_digit p) \<and>
           (case cs of [] \<Rightarrow> False | d # _ \<Rightarrow> is_digit d) \<and>
           underscores_ok (Some c) cs
      else underscores_ok (Some c) cs)"

definition split_sign :: "string \<Rightarrow> bool \<times> string" where
  "split_sign s =
     (case s of
        [] \<Rightarrow> (False, [])
      | c # cs \<Rightarrow> if c = CHR ''-'' then (True, cs)
                 else if c = CHR ''+'' then (False, cs)
                 else (False, s))"

definition py_int_str :: "string \<Rightarrow> pyexc + int" where
  "py_int_str s =
     (let (neg, body) = split_sign (num_strip s)
      in if body \<noteq> [] \<and> list_all (\<lambda>c. is_digit c \<or> c = CHR ''_'') body \<and>
            underscores_ok None body
         then Inr (let v = int (digits_val (filter is_digit body)) in if neg then - v else v)
         else Inl ValueError)"

definition parse_decimal :: "string \<Rightarrow> rat option" where
  "parse_decimal cs =
     (let ip = takeWhile is_digit cs;
          r1 = dropWhile is_digit cs;
          (fp, r2) = (case r1 of
                        [] \<Rightarrow> ([], [])
                      | c # r \<Rightarrow> if c = CHR ''.''
                                then (takeWhile is_digit r, dropWhile is_digit r)
                                else ([], r1));
          mant = (of_nat (digits_val (ip @ fp)) :: rat)
      in if ip = [] \<and> fp = [] then None
         else case r2 of
                [] \<Rightarrow> Some (mant * 10 powi (- int (length fp)))
              | c # r3 \<Rightarrow>
                  if c = CHR ''e'' \<or> c = CHR ''E''
                  then (let (eneg, ed) = split_sign r3
                        in if ed \<noteq> [] \<and> list_all is_digit ed
                           then Some (mant * 10 powi
                                  ((if eneg then - int (digits_val ed) else int (digits_val ed))
                                   - int (length fp)))
                           else None)
                  else None)"

definition py_float_str :: "string \<Rightarrow> pyexc + pyfloat" where
  "py_float_str s =
     (let t = num_strip s
      in if t = [] \<or> \<not> underscores_ok None t then Inl ValueError
         else
           let (neg, body) = split_sign (filter (\<lambda>c. c \<noteq> CHR ''_'') t);
               l = map py_lower_char body
           in if l = ''inf'' \<or> l = ''infinity'' then Inr (if neg then NegInf else PosInf)
              else if l = ''nan'' then Inr NaN
              else case parse_decimal body of
                     None \<Rightarrow> Inl ValueError
                   | Some q \<Rightarrow> Inr (to_double (if neg then - q else q)))"

subsection \<open>\<^verbatim>\<open>isinstance\<close>, \<^verbatim>\<open>pd.isna\<close>, \<^verbatim>\<open>float\<close>, \<^verbatim>\<open>int\<close>, \<^verbatim>\<open>float.is_integer\<close>\<close>

fun isinstance_str :: "pyval \<Rightarrow> bool" where
  "isinstance_str (PStr s) = True"
| "isinstance_str v = False"

text \<open>
  The characters of a string value. \<^verbatim>\<open>name.strip()\<close> and \<^verbatim>\<open>str(name)\<close> are evaluated only
  where \<^verbatim>\<open>isinstance(name, str)\<close> holds, so the second equation is never used by a handler.
\<close>

fun str_value :: "pyval \<Rightarrow> string" where
  "str_value (PStr s) = s"
| "str_value v = []"

fun pd_isna :: "pyval \<Rightarrow> bool" where
  "pd_isna PNone = True"
| "pd_isna (PFloat NaN) = True"
| "pd_isna v = False"

fun py_float :: "pyval \<Rightarrow> pyexc + pyfloat" where
  "py_float PNone = Inl TypeError"
| "py_float (PBool b) = Inr (Fl (if b then 1 else 0))"
| "py_float (PInt n) =
     (case to_double (of_int n) of Fl r \<Rightarrow> Inr (Fl r) | other \<Rightarrow> Inl OverflowError)"
| "py_float (PFloat f) = Inr f"
| "py_float (PStr s) = py_float_str s"

fun py_int :: "pyval \<Rightarrow> pyexc + int" where
  "py_int PNone = Inl TypeError"
| "py_int (PBool b) = Inr (if b then 1 else 0)"
| "py_int (PInt n) = Inr n"
| "py_int (PFloat (Fl r)) = Inr (if 0 \<le> r then \<lfloor>r\<rfloor> else \<lceil>r\<rceil>)"
| "py_int (PFloat NaN) = Inl ValueError"
| "py_int (PFloat PosInf) = Inl OverflowError"
| "py_int (PFloat NegInf) = Inl OverflowError"
| "py_int (PStr s) = py_int_str s"

fun is_integer :: "pyfloat \<Rightarrow> bool" where
  "is_integer (Fl r) = (of_int \<lfloor>r\<rfloor> = r)"
| "is_integer f = False"

section \<open>The registry\<close>

text \<open>
  \<^verbatim>\<open>users = []\<close>: the module-level list of \<^verbatim>\<open>{'Name': ..., 'Age': ...}\<close> dictionaries.
  Every handler takes the list and returns it, updated, with its result.
\<close>

record user =
  Name :: string
  Age :: int

type_synonym users = "user list"

type_synonym pydict = "(string \<times> pyval) list"

definition dict_get :: "pydict \<Rightarrow> string \<Rightarrow> pyval" where
  "dict_get d k = (case map_of d k of None \<Rightarrow> PNone | Some v \<Rightarrow> v)"

text \<open>
  Response bodies handed to \<^verbatim>\<open>jsonify\<close>, paired with the HTTP status. \<open>JDict\<close> is an
  object whose keys are 8-bit strings; \<open>JObj\<close> is an object whose keys are given by their
  code points, for the keys that \<^verbatim>\<open>str.upper\<close> computes.
\<close>

datatype json =
    JVal pyval
  | JList "json list"
  | JDict "(string \<times> json) list"
  | JObj "(nat list \<times> json) list"

type_synonym response = "json \<times> nat"

definition error_body :: "string \<Rightarrow> json" where
  "error_body msg = JDict [(''error'', JVal (PStr msg))]"

definition user_json :: "user \<Rightarrow> json" where
  "user_json u = JDict [(''Name'', JVal (PStr (Name u))), (''Age'', JVal (PInt (Age u)))]"

definition user_exists :: "string \<Rightarrow> users \<Rightarrow> bool" where
  "user_exists name us = list_ex (\<lambda>u. Name u = name) us"

subsection \<open>\<^verbatim>\<open>validate_user_data\<close>\<close>

text \<open>
  Returns \<^verbatim>\<open>(is_valid, error_message)\<close>. The \<^verbatim>\<open>try\<close> around \<^verbatim>\<open>float(age)\<close> catches
  \<^verbatim>\<open>ValueError\<close> and \<^verbatim>\<open>TypeError\<close>; any other exception leaves the function. The
  \<^verbatim>\<open>print\<close> call writes to standard output and is left out, and with it the
  \<^verbatim>\<open>ValueError\<close> it raises for an integer of more than 4300 digits, which neither a JSON
  body nor a CSV cell delivers.
\<close>

definition validate_user_data :: "pyval \<Rightarrow> pyval \<Rightarrow> pyexc + (bool \<times> string)" where
  "validate_user_data name age =
     (if \<not> isinstance_str name \<or> pd_isna name \<or> py_strip (str_value name) = []
      then Inr (False, ''Name cannot be empty'')
      else if pd_isna age then Inr (False, ''Age cannot be empty'')
      else case py_float age of
             Inl e \<Rightarrow> if e = ValueError \<or> e = TypeError
                      then Inr (False, ''Age must be a number'')
                      else Inl e
           | Inr age_float \<Rightarrow>
               if \<not> is_integer age_float then Inr (False, ''Age must be an integer'')
               else case py_int (PFloat age_float) of
                      Inl e \<Rightarrow> Inl e
                    | Inr a \<Rightarrow> if a \<le> 0 \<or> 120 < a
                               then Inr (False, ''Age must be between 1 and 120'')
                               else Inr (True, []))"

subsection \<open>\<^verbatim>\<open>POST /users\<close>\<close>

text \<open>
  \<open>data\<close> is the decoded body: \<open>None\<close> for \<^verbatim>\<open>None\<close>, otherwise a JSON object. The
  conversion \<^verbatim>\<open>int(age)\<close> is applied to the value of the request, not to the float the
  validator computed.
\<close>

definition create_user :: "pydict option \<Rightarrow> users \<Rightarrow> (pyexc + response) \<times> users" where
  "create_user data us =
     (case data of
        None \<Rightarrow> (Inr (error_body ''Name and age are required'', 400), us)
      | Some d \<Rightarrow>
          if d = [] then (Inr (error_body ''Name and age are required'', 400), us)
          else
            let name = dict_get d ''Name''; age = dict_get d ''Age''
            in case validate_user_data name age of
                 Inl e \<Rightarrow> (Inl e, us)
               | Inr (is_valid, error) \<Rightarrow>
                   if \<not> is_valid then (Inr (error_body error, 400), us)
                   else
                     let name' = py_strip (str_value name)
                     in case py_int age of
                          Inl e \<Rightarrow> (Inl e, us)
                        | Inr age' \<Rightarrow>
                            if user_exists name' us
                            then (Inr (error_body ''User already exists'', 400), us)
                            else let u = \<lparr>Name = name', Age = age'\<rparr>
                                 in (Inr (user_json u, 201), us @ [u]))"

subsection \<open>\<^verbatim>\<open>DELETE /users/<name>\<close>\<close>

text \<open>
  The loop returns at the first record whose name equals the path parameter, after
  \<^verbatim>\<open>users.remove(user)\<close>, which deletes the first list element equal to that record.
\<close>

definition delete_user :: "string \<Rightarrow> users \<Rightarrow> response \<times> users" where
  "delete_user name us =
     (case find (\<lambda>u. Name u = name) us of
        Some u \<Rightarrow>
          ((JDict [(''message'', JVal (PStr (''User '' @ name @ '' deleted successfully'')))], 200),
           remove1 u us)
      | None \<Rightarrow> ((error_body ''User not found'', 404), us))"

subsection \<open>\<^verbatim>\<open>GET /users\<close>\<close>

definition get_users :: "users \<Rightarrow> response \<times> users" where
  "get_users us =
     ((JDict [(''data'', JList (map user_json us)),
              (''count'', JVal (PInt (int (length us))))], 200), us)"

subsection \<open>\<^verbatim>\<open>POST /users/upload\<close>\<close>

text \<open>
  The uploaded file is given by its name and by what \<^verbatim>\<open>pd.read_csv\<close> makes of it: the
  message of the exception it raises, or a data frame with its column names and rows.
\<close>

record dataframe =
  columns :: "string list"
  rows :: "pyval list list"

record upload_file =
  filename :: string
  read_csv :: "string + dataframe"

definition to_dict_records :: "dataframe \<Rightarrow> pydict list" where
  "to_dict_records df = map (\<lambda>r. zip (columns df) r) (rows df)"

definition row_error :: "nat \<Rightarrow> string \<Rightarrow> json" where
  "row_error n msg = JDict [(''row'', JVal (PInt (int n))), (''error'', JVal (PStr msg))]"

text \<open>
  The \<^verbatim>\<open>for idx, user in enumerate(new_users)\<close> loop, with the three lists it appends to.
  An exception leaves the loop with the registry as it is at that row.
\<close>

fun upload_loop ::
  "nat \<Rightarrow> pydict list \<Rightarrow> users \<Rightarrow> user list \<Rightarrow> json list
     \<Rightarrow> (pyexc + (user list \<times> json list)) \<times> users" where
  "upload_loop idx [] us added_users invalid_users = (Inr (added_users, invalid_users), us)"
| "upload_loop idx (row # rest) us added_users invalid_users =
     (let name = dict_get row ''Name''; age = dict_get row ''Age''
      in case validate_user_data name age of
           Inl e \<Rightarrow> (Inl e, us)
         | Inr (is_valid, error) \<Rightarrow>
             if \<not> is_valid
             then upload_loop (idx + 1) rest us added_users
                    (invalid_users @ [row_error (idx + 2) error])
             else
               let name' = py_strip (str_value name)
               in case py_int age of
                    Inl e \<Rightarrow> (Inl e, us)
                  | Inr age' \<Rightarrow>
                      if user_exists name' us
                      then upload_loop (idx + 1) rest us added_users
                             (invalid_users @
                                [row_error (idx + 2) (''User '' @ name' @ '' already exists'')])
                      else let valid_user = \<lparr>Name = name', Age = age'\<rparr>
                           in upload_loop (idx + 1) rest (us @ [valid_user])
                                (added_users @ [valid_user]) invalid_users)"

definition upload_response :: "user list \<Rightarrow> json list \<Rightarrow> json" where
  "upload_response added_users invalid_users =
     JDict ([(''message'',
               JVal (PStr (''Successfully added '' @ str_nat (length added_users) @ '' users''))),
             (''added_users'', JList (map user_json added_users))] @
            (if invalid_users \<noteq> []
             then [(''invalid_users'', JList invalid_users),
                   (''warning'',
                     JVal (PStr (str_nat (length invalid_users) @
                       '' rows skipped due to validation errors or duplicates'')))]
             else []))"

definition upload_users :: "upload_file option \<Rightarrow> users \<Rightarrow> (pyexc + response) \<times> users" where
  "upload_users files us =
     (case files of
        None \<Rightarrow> (Inr (error_body ''No file provided'', 400), us)
      | Some file \<Rightarrow>
          if filename file = [] then (Inr (error_body ''No file selected'', 400), us)
          else if \<not> py_endswith (filename file) ''.csv''
          then (Inr (error_body ''File must be a CSV'', 400), us)
          else case read_csv file of
                 Inl e \<Rightarrow> (Inr (error_body (''Error processing CSV file: '' @ e), 400), us)
               | Inr df \<Rightarrow>
                   if \<not> list_all (\<lambda>col. col \<in> set (columns df)) [''Name'', ''Age'']
                   then (Inr (error_body ''CSV must contain \"Name\" and \"Age\" columns'', 400), us)
                   else case upload_loop 0 (to_dict_records df) us [] [] of
                          (Inl e, us') \<Rightarrow> (Inl e, us')
                        | (Inr (added_users, invalid_users), us') \<Rightarrow>
                            (Inr (upload_response added_users invalid_users, 201), us'))"

subsection \<open>\<^verbatim>\<open>GET /users/average-age\<close>\<close>

text \<open>
  \<^verbatim>\<open>df['Name'].str[0].str.upper()\<close> gives the group of a record, and no group for an empty
  name (such rows are dropped by \<^verbatim>\<open>groupby\<close>). \<^verbatim>\<open>groupby\<close> orders the groups by key,
  as strings are ordered: lexicographically by code point.
  The mean of a group is the binary64 quotient of the sum of its ages by their number (the
  sum itself is exact below \<open>2 ^ 53\<close>), and \<^verbatim>\<open>round(2)\<close> multiplies by 100, rounds to the
  nearest integer, ties to even, and divides by 100, each step in binary64.
\<close>

definition group_of :: "user \<Rightarrow> nat list option" where
  "group_of u = (case Name u of [] \<Rightarrow> None | c # cs \<Rightarrow> Some (py_upper c))"

definition group_keys :: "users \<Rightarrow> nat list list" where
  "group_keys us = remdups (sort (List.map_filter group_of us))"

definition group_ages :: "nat list \<Rightarrow> users \<Rightarrow> int list" where
  "group_ages g us = map Age (filter (\<lambda>u. group_of u = Some g) us)"

definition fl_mean :: "int list \<Rightarrow> pyfloat" where
  "fl_mean xs = to_double (of_int (sum_list xs) / of_nat (length xs))"

definition np_round2 :: "pyfloat \<Rightarrow> pyfloat" where
  "np_round2 x =
     (case x of
        Fl r \<Rightarrow> (case to_double (r * 100) of
                   Fl y \<Rightarrow> to_double (of_int (round_half_even y) / 100)
                 | other \<Rightarrow> other)
      | other \<Rightarrow> other)"

definition group_averages :: "users \<Rightarrow> (nat list \<times> json) list" where
  "group_averages us =
     map (\<lambda>g. (g, JVal (PFloat (np_round2 (fl_mean (group_ages g us)))))) (group_keys us)"

definition get_average_age_by_group :: "users \<Rightarrow> response \<times> users" where
  "get_average_age_by_group us =
     (if us = [] then ((error_body ''No users found'', 404), us)
      else ((JDict [(''average_age'', JObj (group_averages us))], 200), us))"

subsection \<open>Requests and reachable registries\<close>

text \<open>
  A request is one call of a handler with its arguments. \<open>dispatch\<close> keeps what the call
  leaves in \<^verbatim>\<open>users\<close>, also when the call ends in an exception. The registry is empty
  when the module is loaded, and \<open>reachable\<close> holds of the lists that some sequence of
  requests leads to.
\<close>

datatype request =
    CreateUser "pydict option"
  | DeleteUser string
  | GetUsers
  | UploadUsers "upload_file option"
  | GetAverageAge

fun dispatch :: "request \<Rightarrow> users \<Rightarrow> users" where
  "dispatch (CreateUser data) us = snd (create_user data us)"
| "dispatch (DeleteUser name) us = snd (delete_user name us)"
| "dispatch GetUsers us = snd (get_users us)"
| "dispatch (UploadUsers files) us = snd (upload_users files us)"
| "dispatch GetAverageAge us = snd (get_average_age_by_group us)"

inductive reachable :: "users \<Rightarrow> bool" where
  reachable_init: "reachable []"
| reachable_step: "reachable us \<Longrightarrow> reachable (dispatch r us)"

text \<open>
  The invariant: every record has a non-empty name that is its own trimmed form and an age
  between 1 and 120, and the names are pairwise different.
\<close>

definition valid_user :: "user \<Rightarrow> bool" where
  "valid_user u \<longleftrightarrow> Name u \<noteq> [] \<and> py_strip (Name u) = Name u \<and> 1 \<le> Age u \<and> Age u \<le> 120"

definition registry_inv :: "users \<Rightarrow> bool" where
  "registry_inv us \<longleftrightarrow> list_all valid_user us \<and> distinct (map Name us)"

section \<open>Facts about binary64 rounding\<close>

lemma powi2_less_iff: "(2::rat) powi m < 2 powi n \<longleftrightarrow> m < n"
proof
  assume lt: "(2::rat) powi m < 2 powi n"
  show "m < n"
  proof (rule ccontr)
    assume "\<not> m < n"
    then have "n \<le> m" by simp
    then have "(2::rat) powi n \<le> 2 powi m" by (rule power_int_increasing) simp
    with lt show False by simp
  qed
next
  assume "m < n"
  then show "(2::rat) powi m < 2 powi n" by (rule power_int_strict_increasing) simp
qed

lemma powi2_le_iff: "(2::rat) powi m \<le> 2 powi n \<longleftrightarrow> m \<le> n"
  using powi2_less_iff[of n m] by (simp add: not_less[symmetric])

lemma round_half_even_of_int: "round_half_even (of_int k) = k"
  by (simp add: round_half_even_def)

lemma round_half_even_ge_floor: "\<lfloor>q\<rfloor> \<le> round_half_even q"
  by (simp add: round_half_even_def Let_def)

lemma bitlen_powi_bounds:
  assumes "0 < a"
  shows "(2::rat) powi (bitlen a - 1) \<le> of_int a" and "of_int a < (2::rat) powi (bitlen a)"
proof -
  from bitlen_bounds[OF assms]
  have lo: "2 ^ nat (bitlen a - 1) \<le> a" and hi: "a < 2 ^ nat (bitlen a)" by auto
  have ge1: "1 \<le> bitlen a" using assms by (auto simp: bitlen_alt_def)
  have "(2::rat) powi (bitlen a - 1) = 2 ^ nat (bitlen a - 1)"
    using ge1 by (simp add: power_int_def)
  also have "\<dots> = of_int (2 ^ nat (bitlen a - 1))" by simp
  also have "\<dots> \<le> of_int a" using lo by (simp only: of_int_le_iff)
  finally show "(2::rat) powi (bitlen a - 1) \<le> of_int a" .
  have "of_int a < (of_int (2 ^ nat (bitlen a)) :: rat)" using hi by (simp only: of_int_less_iff)
  also have "\<dots> = 2 ^ nat (bitlen a)" by simp
  also have "\<dots> = (2::rat) powi (bitlen a)"
    using ge1 by (simp add: power_int_def)
  finally show "of_int a < (2::rat) powi (bitlen a)" .
qed

lemma ilog2_bounds:
  assumes "0 < q"
  shows "2 powi (ilog2 q) \<le> q" and "q < 2 powi (ilog2 q + 1)"
proof -
  obtain a b where ab: "quotient_of q = (a, b)" by (cases "quotient_of q")
  have bpos: "0 < b" using ab by (rule quotient_of_denom_pos)
  have q: "q = of_int a / of_int b" using ab by (rule quotient_of_div)
  have apos: "0 < a" using assms bpos q by (simp add: zero_less_divide_iff)
  define e0 where "e0 = bitlen a - bitlen b"
  have bq: "(0::rat) < of_int b" using bpos by simp
  have up: "q < 2 powi (e0 + 1)"
  proof -
    have "of_int a < (2::rat) powi (bitlen a)" using bitlen_powi_bounds(2)[OF apos] .
    also have "\<dots> = 2 powi (e0 + 1) * 2 powi (bitlen b - 1)"
      by (simp add: e0_def power_int_add[symmetric])
    also have "\<dots> \<le> 2 powi (e0 + 1) * of_int b"
      using bitlen_powi_bounds(1)[OF bpos] by (intro mult_left_mono) auto
    finally show ?thesis using bq by (simp add: q pos_divide_less_eq)
  qed
  have lo: "2 powi (e0 - 1) \<le> q"
  proof -
    have "(2::rat) powi (e0 - 1) * of_int b \<le> 2 powi (e0 - 1) * 2 powi (bitlen b)"
      using bitlen_powi_bounds(2)[OF bpos] by (intro mult_left_mono) auto
    also have "\<dots> = 2 powi (bitlen a - 1)"
      by (simp add: e0_def power_int_add[symmetric])
    also have "\<dots> \<le> of_int a" using bitlen_powi_bounds(1)[OF apos] .
    finally show ?thesis using bq by (simp add: q pos_le_divide_eq)
  qed
  have il: "ilog2 q = (if 2 powi e0 \<le> q then e0 else e0 - 1)"
    by (simp add: ilog2_def ab e0_def Let_def)
  show "2 powi (ilog2 q) \<le> q" using lo by (simp add: il)
  show "q < 2 powi (ilog2 q + 1)" using up by (auto simp: il)
qed


lemma fl_round_mag_exact:
  assumes "0 < n" "n < 2 ^ 53"
  shows "fl_round_mag (of_int n) = of_int n"
proof -
  let ?q = "of_int n :: rat"
  have qpos: "0 < ?q" using assms by simp
  define e where "e = ilog2 ?q"
  have lo: "2 powi e \<le> ?q" and hi: "?q < 2 powi (e + 1)"
    using ilog2_bounds[OF qpos] by (simp_all add: e_def)
  have "(2::rat) powi 0 \<le> ?q" using assms by simp
  then have "(2::rat) powi 0 < 2 powi (e + 1)" using hi by (rule le_less_trans)
  then have e0: "0 \<le> e" by (simp only: powi2_less_iff)
  have "?q < of_int (2 ^ 53)" using assms(2) by (simp only: of_int_less_iff)
  then have "?q < 2 powi 53" by simp
  with lo have "(2::rat) powi e < 2 powi 53" by (rule le_less_trans)
  then have "e < 53" by (simp only: powi2_less_iff)
  then have e52: "e \<le> 52" by simp
  define k where "k = nat (52 - e)"
  have ulp: "(2::rat) powi (max e (- 1022) - 52) = 1 / 2 ^ k"
  proof -
    have "max e (- 1022) - 52 = - int k" using e0 e52 by (simp add: k_def)
    then show ?thesis by (simp add: power_int_minus_divide)
  qed
  have "?q / (1 / 2 ^ k) = of_int (n * 2 ^ k)" by simp
  then have "round_half_even (?q / (1 / 2 ^ k)) = n * 2 ^ k"
    by (simp only: round_half_even_of_int)
  then show ?thesis
    by (simp add: fl_round_mag_def Let_def e_def[symmetric] ulp)
qed

lemma fl_round_mag_lower:
  assumes "0 < q" "- 1022 \<le> ilog2 q"
  shows "2 powi (ilog2 q) \<le> fl_round_mag q"
proof -
  define e where "e = ilog2 q"
  define ulp where "ulp = (2::rat) powi (e - 52)"
  have ulp_pos: "0 < ulp" by (simp add: ulp_def)
  have lo: "2 powi e \<le> q" using ilog2_bounds(1)[OF assms(1)] by (simp add: e_def)
  have pe: "(2::rat) powi e = 2 ^ 52 * ulp"
    by (simp add: ulp_def power_int_diff)
  have "(2::rat) ^ 52 \<le> q / ulp" using lo ulp_pos by (simp add: pe pos_le_divide_eq)
  then have "of_int (2 ^ 52) \<le> q / ulp" by simp
  then have "2 ^ 52 \<le> \<lfloor>q / ulp\<rfloor>" by (simp only: le_floor_iff)
  with round_half_even_ge_floor[of "q / ulp"] have "2 ^ 52 \<le> round_half_even (q / ulp)"
    by linarith
  then have "(of_int (2 ^ 52) :: rat) \<le> of_int (round_half_even (q / ulp))"
    by (simp only: of_int_le_iff)
  then have "2 ^ 52 * ulp \<le> of_int (round_half_even (q / ulp)) * ulp"
    using ulp_pos by (simp add: mult_le_cancel_right)
  moreover have "max e (- 1022) = e" using assms(2) by (simp add: e_def)
  ultimately show ?thesis
    by (simp add: fl_round_mag_def Let_def e_def[symmetric] ulp_def[symmetric] pe)
qed

lemma ilog2_ge:
  assumes "2 powi k \<le> q"
  shows "k \<le> ilog2 q"
proof -
  have qpos: "0 < q" using assms by (rule less_le_trans[rotated]) simp
  have "(2::rat) powi k < 2 powi (ilog2 q + 1)"
    using assms ilog2_bounds(2)[OF qpos] by (rule le_less_trans)
  then show ?thesis by (simp add: powi2_less_iff)
qed

lemma fl_round_mag_ge:
  assumes "2 powi k \<le> q" "- 1022 \<le> k"
  shows "2 powi k \<le> fl_round_mag q"
proof -
  have qpos: "0 < q" using assms(1) by (rule less_le_trans[rotated]) simp
  have ke: "k \<le> ilog2 q" using assms(1) by (rule ilog2_ge)
  then have "(2::rat) powi k \<le> 2 powi (ilog2 q)" by (simp only: powi2_le_iff)
  also have "\<dots> \<le> fl_round_mag q"
    using qpos ke assms(2) by (intro fl_round_mag_lower) auto
  finally show ?thesis .
qed


lemma to_double_of_int:
  assumes "\<bar>n\<bar> < 2 ^ 53"
  shows "to_double (of_int n) = Fl (of_int n)"
proof (cases "n = 0")
  case True
  then show ?thesis by (simp add: to_double_def)
next
  case False
  then have apos: "0 < \<bar>n\<bar>" by simp
  have m: "fl_round_mag (of_int \<bar>n\<bar>) = of_int \<bar>n\<bar>"
    using apos assms by (rule fl_round_mag_exact)
  have "(of_int \<bar>n\<bar> :: rat) < of_int (2 ^ 53)" using assms by (simp only: of_int_less_iff)
  also have "\<dots> \<le> 2 ^ 1024" by simp
  finally have small: "\<not> (2::rat) ^ 1024 \<le> of_int \<bar>n\<bar>" by simp
  have abs_eq: "\<bar>of_int n :: rat\<bar> = of_int \<bar>n\<bar>" by simp
  show ?thesis
    using False small by (simp add: to_double_def Let_def abs_eq m del: of_int_abs)
qed

lemma to_double_overflow:
  assumes "2 ^ 1024 \<le> q"
  shows "to_double q = PosInf"
proof -
  have qpos: "0 < q" using assms by (rule less_le_trans[rotated]) simp
  have "(2::rat) powi 1024 \<le> \<bar>q\<bar>" using assms qpos by simp
  then have "(2::rat) powi 1024 \<le> fl_round_mag \<bar>q\<bar>" by (rule fl_round_mag_ge) simp
  then have "(2::rat) ^ 1024 \<le> fl_round_mag \<bar>q\<bar>" by simp
  then show ?thesis using qpos by (simp add: to_double_def Let_def)
qed

lemma to_double_int_range:
  assumes "to_double (of_int n) = Fl r" "1 \<le> r" "r \<le> 120"
  shows "r = of_int n"
proof (cases "\<bar>n\<bar> < 2 ^ 53")
  case True
  then show ?thesis using assms(1) by (simp add: to_double_of_int)
next
  case False
  then have nz: "n \<noteq> 0" by auto
  have big: "(2::rat) powi 53 \<le> \<bar>of_int n\<bar>"
  proof -
    have "(2::int) ^ 53 \<le> \<bar>n\<bar>" using False by simp
    then have "(of_int (2 ^ 53) :: rat) \<le> of_int \<bar>n\<bar>" by (simp only: of_int_le_iff)
    then show ?thesis by simp
  qed
  then have mag: "(2::rat) powi 53 \<le> fl_round_mag \<bar>of_int n\<bar>" by (rule fl_round_mag_ge) simp
  show ?thesis
  proof (cases "n < 0")
    case True
    then have "r = - fl_round_mag \<bar>of_int n\<bar>"
      using assms(1) nz by (simp add: to_double_def Let_def split: if_splits)
    with mag assms(2) show ?thesis by simp
  next
    case pos: False
    then have "r = fl_round_mag \<bar>of_int n\<bar>"
      using assms(1) nz by (simp add: to_double_def Let_def split: if_splits)
    with mag assms(3) show ?thesis by simp
  qed
qed

lemma round_half_even_err: "\<bar>of_int (round_half_even x) - x\<bar> \<le> 1 / 2"
proof -
  have "of_int \<lfloor>x\<rfloor> \<le> x" "x < of_int \<lfloor>x\<rfloor> + 1" by linarith+
  then show ?thesis by (auto simp: round_half_even_def Let_def abs_le_iff)
qed

lemma fl_round_mag_err:
  assumes "0 < q" "- 1022 \<le> ilog2 q"
  shows "\<bar>fl_round_mag q - q\<bar> \<le> 2 powi (ilog2 q - 53)"
proof -
  define ulp where "ulp = (2::rat) powi (ilog2 q - 52)"
  have ulp_pos: "0 < ulp" by (simp add: ulp_def)
  have m: "fl_round_mag q = of_int (round_half_even (q / ulp)) * ulp"
    using assms(2) by (simp add: fl_round_mag_def Let_def ulp_def max_def)
  have "fl_round_mag q - q = (of_int (round_half_even (q / ulp)) - q / ulp) * ulp"
    using ulp_pos by (simp add: m algebra_simps)
  then have "\<bar>fl_round_mag q - q\<bar> = \<bar>of_int (round_half_even (q / ulp)) - q / ulp\<bar> * ulp"
    using ulp_pos by (simp add: abs_mult)
  also have "\<dots> \<le> (1 / 2) * ulp"
    using round_half_even_err[of "q / ulp"] ulp_pos by (intro mult_right_mono) auto
  also have "\<dots> = 2 powi (ilog2 q - 53)"
    by (simp add: ulp_def power_int_diff)
  finally show ?thesis .
qed

lemma to_double_near:
  assumes "1 \<le> q" "q < 2 ^ 14"
  shows "\<exists>r. to_double q = Fl r \<and> \<bar>r - q\<bar> \<le> 1 / 2 ^ 40"
proof -
  define eps :: rat where "eps = 1 / 2 ^ 40"
  have eps1: "eps \<le> 1" by (simp add: eps_def)
  have qpos: "0 < q" using assms(1) by simp
  have "(2::rat) powi 0 \<le> q" using assms(1) by simp
  then have e0: "0 \<le> ilog2 q" by (rule ilog2_ge)
  have "(2::rat) powi (ilog2 q) \<le> q" using qpos by (rule ilog2_bounds(1))
  also have "q < 2 powi 14" using assms(2) by simp
  finally have "ilog2 q < 14" by (simp only: powi2_less_iff)
  then have "ilog2 q - 53 \<le> - 40" by simp
  then have "(2::rat) powi (ilog2 q - 53) \<le> 2 powi (- 40)" by (simp only: powi2_le_iff)
  also have "\<dots> = eps" by (simp add: power_int_minus_divide eps_def)
  finally have ulp: "(2::rat) powi (ilog2 q - 53) \<le> eps" .
  have "\<bar>fl_round_mag q - q\<bar> \<le> 2 powi (ilog2 q - 53)"
    using qpos e0 by (intro fl_round_mag_err) auto
  with ulp have err: "\<bar>fl_round_mag q - q\<bar> \<le> eps" by linarith
  with eps1 have "fl_round_mag q \<le> q + 1" by linarith
  also have "\<dots> < 2 ^ 14 + 1" using assms(2) by simp
  also have "\<dots> \<le> (2::rat) ^ 1024" by simp
  finally have small: "\<not> (2::rat) ^ 1024 \<le> fl_round_mag q" by simp
  have "to_double q = Fl (fl_round_mag q)"
    using qpos small by (simp add: to_double_def Let_def)
  with err show ?thesis unfolding eps_def by blast
qed

lemma mean_in_range:
  assumes "xs \<noteq> []" "\<forall>a\<in>set xs. 1 \<le> a \<and> a \<le> (120::int)"
  shows "(1::rat) \<le> of_int (sum_list xs) / of_nat (length xs)"
    and "(of_int (sum_list xs) :: rat) / of_nat (length xs) \<le> 120"
proof -
  have len: "(0::rat) < of_nat (length xs)" using assms(1) by simp
  have "int (length xs) \<le> sum_list xs \<and> sum_list xs \<le> 120 * int (length xs)"
    using assms(2) by (induction xs) auto
  then have lo: "(of_int (int (length xs)) :: rat) \<le> of_int (sum_list xs)"
    and hi: "(of_int (sum_list xs) :: rat) \<le> of_int (120 * int (length xs))"
    by (simp_all only: of_int_le_iff)
  show "(1::rat) \<le> of_int (sum_list xs) / of_nat (length xs)"
    using lo len by (simp add: pos_le_divide_eq)
  show "(of_int (sum_list xs) :: rat) / of_nat (length xs) \<le> 120"
    using hi len by (simp add: pos_divide_le_eq)
qed

lemma np_round2_mean:
  assumes "xs \<noteq> []" "\<forall>a\<in>set xs. 1 \<le> a \<and> a \<le> (120::int)"
  shows "\<exists>c. np_round2 (fl_mean xs) = to_double (of_int c / 100) \<and>
             \<bar>(of_int c :: rat) - 100 * (of_int (sum_list xs) / of_nat (length xs))\<bar>
               \<le> 1 / 2 + 1 / 2 ^ 33"
proof -
  define m :: rat where "m = of_int (sum_list xs) / of_nat (length xs)"
  define eps :: rat where "eps = 1 / 2 ^ 40"
  have eps: "0 < eps" "eps \<le> 1 / 1000" "101 * eps \<le> 1 / 2 ^ 33" by (simp_all add: eps_def)
  have m1: "1 \<le> m" and m120: "m \<le> 120"
    using mean_in_range[OF assms] by (simp_all add: m_def)
  from m120 have "m < 2 ^ 14" by simp
  with m1 obtain x where x: "to_double m = Fl x" and xe: "\<bar>x - m\<bar> \<le> eps"
    using to_double_near unfolding eps_def by blast
  have "1 \<le> x * 100" using xe m1 eps by linarith
  moreover have "x * 100 < 2 ^ 14"
  proof -
    have "x * 100 < 16384" using xe m120 eps by linarith
    then show ?thesis by simp
  qed
  ultimately obtain y where y: "to_double (x * 100) = Fl y" and ye: "\<bar>y - x * 100\<bar> \<le> eps"
    using to_double_near unfolding eps_def by blast
  define c where "c = round_half_even y"
  have ce: "\<bar>of_int c - y\<bar> \<le> 1 / 2" unfolding c_def by (rule round_half_even_err)
  have res: "np_round2 (fl_mean xs) = to_double (of_int c / 100)"
    by (simp add: np_round2_def fl_mean_def m_def[symmetric] x y c_def)
  have "\<bar>of_int c - 100 * m\<bar> \<le> 1 / 2 + 101 * eps"
    using ce ye xe by linarith
  with eps(3) have "\<bar>of_int c - 100 * m\<bar> \<le> 1 / 2 + 1 / 2 ^ 33" by linarith
  with res show ?thesis unfolding m_def by blast
qed

lemma to_double_numeral:
  "(numeral k :: int) < 2 ^ 53 \<Longrightarrow> to_double (numeral k) = Fl (numeral k)"
  using to_double_of_int[of "numeral k"] by simp

lemma round_half_even_numeral: "round_half_even (numeral k) = numeral k"
  using round_half_even_of_int[of "numeral k"] by simp

section \<open>Facts about strings and numeric literals\<close>

lemma py_strip_idem: "py_strip (py_strip s) = py_strip s"
proof -
  define A where "A = dropWhile py_isspace s"
  define B where "B = rev (dropWhile py_isspace (rev A))"
  have B: "py_strip s = B" by (simp add: py_strip_def A_def B_def)
  have revB: "rev B = dropWhile py_isspace (rev A)" by (simp add: B_def)
  have front: "dropWhile py_isspace B = B"
  proof (cases "B = []")
    case True
    then show ?thesis by simp
  next
    case False
    have "rev A = takeWhile py_isspace (rev A) @ rev B" by (simp add: revB)
    then have "rev (rev A) = rev (takeWhile py_isspace (rev A) @ rev B)" by simp
    then have split: "A = B @ rev (takeWhile py_isspace (rev A))" by simp
    with False have hd: "hd A = hd B" by (metis hd_append2)
    from split False have "A \<noteq> []" by auto
    then have "\<not> py_isspace (hd A)" unfolding A_def by (rule hd_dropWhile)
    with hd show ?thesis by (simp add: dropWhile_eq_self_iff)
  qed
  have rear: "dropWhile py_isspace (rev B) = rev B" by (simp add: revB)
  have "py_strip B = rev (dropWhile py_isspace (rev (dropWhile py_isspace B)))"
    by (simp only: py_strip_def)
  also have "\<dots> = rev (dropWhile py_isspace (rev B))" by (simp only: front)
  also have "\<dots> = B" by (simp only: rear rev_rev_ident)
  finally show ?thesis by (simp only: B)
qed

text \<open>
  The two whitespace sets at work: \<^verbatim>\<open>str.strip\<close> removes the no-break space and the
  separator U+001C, \<^verbatim>\<open>float\<close> and \<^verbatim>\<open>int\<close> accept the first around a number and refuse
  the second.
\<close>

lemma whitespace_examples:
  "py_strip [CHR 0xA0] = []"
  "py_strip (CHR 0x1C # ''John'' @ [CHR 0x85]) = ''John''"
  "py_float_str (CHR 0xA0 # ''30'') = Inr (Fl 30)"
  "py_int_str (CHR 0xA0 # ''30'') = Inr 30"
  "py_float_str (CHR 0x1C # ''30'') = Inl ValueError"
  "py_int_str (CHR 0x1C # ''30'') = Inl ValueError"
  by code_simp+

lemma is_digit_not_special:
  assumes "is_digit c"
  shows "c \<noteq> CHR ''_''" "c \<noteq> CHR ''-''" "c \<noteq> CHR ''+''" "py_lower_char c = c"
    "c \<noteq> CHR ''i''" "c \<noteq> CHR ''n''"
  using assms by (auto simp: is_digit_def py_lower_char_def Let_def)

lemma underscores_ok_hd:
  "c \<noteq> CHR ''_'' \<Longrightarrow> underscores_ok p (c # cs) = underscores_ok q (c # cs)"
  by simp

lemma parse_decimal_digits:
  assumes "ds \<noteq> []" "list_all is_digit ds"
  shows "parse_decimal ds = Some (of_nat (digits_val ds))"
proof -
  have all: "\<forall>c\<in>set ds. is_digit c" using assms(2) by (simp add: list_all_iff)
  then have tw: "takeWhile is_digit ds = ds" and dw: "dropWhile is_digit ds = []"
    by simp_all
  show ?thesis using assms(1) by (simp add: parse_decimal_def tw dw Let_def)
qed


lemma int_literal_body:
  assumes "body \<noteq> []" "list_all (\<lambda>c. is_digit c \<or> c = CHR ''_'') body"
    "underscores_ok None body"
  shows "is_digit (hd body)"
    and "filter (\<lambda>c. c \<noteq> CHR ''_'') body = filter is_digit body"
    and "filter is_digit body \<noteq> []"
    and "underscores_ok p body"
proof -
  obtain c cs where body: "body = c # cs" using assms(1) by (cases body) auto
  have c: "c \<noteq> CHR ''_''" using assms(3) by (auto simp: body)
  then show hd: "is_digit (hd body)" using assms(2) by (simp add: body)
  have "\<forall>x\<in>set body. (x \<noteq> CHR ''_'') = is_digit x"
    using assms(2) by (auto simp: list_all_iff is_digit_def)
  then show "filter (\<lambda>c. c \<noteq> CHR ''_'') body = filter is_digit body"
    by (intro filter_cong refl) simp
  show "filter is_digit body \<noteq> []" using hd by (simp add: body)
  show "underscores_ok p body"
    using assms(3) underscores_ok_hd[OF c, of p cs None] by (simp only: body)
qed

lemma py_float_str_body:
  assumes "ds \<noteq> []" "list_all is_digit ds"
  shows "map py_lower_char ds \<noteq> ''inf''" "map py_lower_char ds \<noteq> ''infinity''"
    "map py_lower_char ds \<noteq> ''nan''" "split_sign ds = (False, ds)"
proof -
  obtain d ds' where ds: "ds = d # ds'" using assms(1) by (cases ds) auto
  have d: "is_digit d" using assms(2) by (simp add: ds)
  note sp = is_digit_not_special[OF d]
  show "map py_lower_char ds \<noteq> ''inf''" using sp by (auto simp: ds)
  show "map py_lower_char ds \<noteq> ''infinity''" using sp by (auto simp: ds)
  show "map py_lower_char ds \<noteq> ''nan''" using sp by (auto simp: ds)
  show "split_sign ds = (False, ds)" using sp by (simp add: ds split_sign_def)
qed

lemma py_int_float_str:
  assumes "py_int_str s = Inr a"
  shows "py_float_str s = Inr (to_double (of_int a))"
proof -
  define t where "t = num_strip s"
  obtain neg body where sp: "split_sign t = (neg, body)" by (cases "split_sign t")
  define ds where "ds = filter is_digit body"
  from assms have ok: "body \<noteq> []" "list_all (\<lambda>c. is_digit c \<or> c = CHR ''_'') body"
      "underscores_ok None body"
    and a: "a = (if neg then - int (digits_val ds) else int (digits_val ds))"
    by (auto simp: py_int_str_def t_def[symmetric] sp ds_def Let_def split: if_splits)
  note lit = int_literal_body[OF ok]
  have ds_ne: "ds \<noteq> []" and ds_dig: "list_all is_digit ds"
    using lit(3) by (simp_all add: ds_def list_all_iff)
  note fb = py_float_str_body[OF ds_ne ds_dig]
  have t_ne: "t \<noteq> []" using sp ok(1) by (auto simp: split_sign_def)
  have us: "underscores_ok None t"
    using sp lit(4)[of "Some (hd t)"] ok(3)
    by (cases t) (auto simp: split_sign_def split: if_splits)
  have fs: "split_sign (filter (\<lambda>c. c \<noteq> CHR ''_'') t) = (neg, ds)"
  proof (cases t)
    case Nil
    with t_ne show ?thesis by simp
  next
    case (Cons c cs)
    show ?thesis
    proof (cases "c = CHR ''-'' \<or> c = CHR ''+''")
      case True
      then have "body = cs" and "neg = (c = CHR ''-'')"
        using sp by (auto simp: Cons split_sign_def)
      then show ?thesis using True lit(2) by (auto simp: Cons split_sign_def ds_def)
    next
      case False
      then have b: "body = t" and n: "neg = False" using sp by (auto simp: Cons split_sign_def)
      have "filter (\<lambda>c. c \<noteq> CHR ''_'') t = ds" using lit(2) by (simp add: b ds_def)
      then show ?thesis using fb(4) by (simp add: n)
    qed
  qed
  have pd: "parse_decimal ds = Some (of_nat (digits_val ds))"
    using ds_ne ds_dig by (rule parse_decimal_digits)
  show ?thesis
    using t_ne us fb(1,2,3)
    by (simp add: py_float_str_def t_def[symmetric] fs pd a Let_def)
qed

section \<open>Facts about the validator\<close>

lemma validate_name_first:
  assumes "\<not> isinstance_str name \<or> py_strip (str_value name) = []"
  shows "validate_user_data name age = Inr (False, ''Name cannot be empty'')"
  using assms by (auto simp: validate_user_data_def)

lemma validate_blank_name:
  "validate_user_data (PStr [CHR 0xA0]) age = Inr (False, ''Name cannot be empty'')"
  "validate_user_data (PStr '' '') age = Inr (False, ''Name cannot be empty'')"
  "validate_user_data PNone age = Inr (False, ''Name cannot be empty'')"
  by (simp_all add: validate_user_data_def py_strip_def py_isspace_def)

lemma validate_age_missing:
  assumes "py_strip s \<noteq> []" "pd_isna age"
  shows "validate_user_data (PStr s) age = Inr (False, ''Age cannot be empty'')"
  using assms by (simp add: validate_user_data_def)

lemma validate_ok_D:
  assumes "validate_user_data name age = Inr (True, e)"
  shows "\<exists>s. name = PStr s \<and> py_strip s \<noteq> []"
    and "\<not> pd_isna age"
    and "\<exists>f a. py_float age = Inr f \<and> is_integer f \<and> py_int (PFloat f) = Inr a \<and> 1 \<le> a \<and> a \<le> 120"
    and "e = []"
proof -
  show "\<exists>s. name = PStr s \<and> py_strip s \<noteq> []"
    using assms by (cases name) (auto simp: validate_user_data_def split: if_splits)
  show "\<not> pd_isna age"
    using assms by (auto simp: validate_user_data_def split: if_splits)
  show "\<exists>f a. py_float age = Inr f \<and> is_integer f \<and> py_int (PFloat f) = Inr a \<and> 1 \<le> a \<and> a \<le> 120"
    using assms
    by (auto simp: validate_user_data_def split: if_splits sum.splits)
  show "e = []"
    using assms
    by (auto simp: validate_user_data_def split: if_splits sum.splits)
qed

lemma is_integer_py_int:
  assumes "is_integer f" "py_int (PFloat f) = Inr a"
  shows "f = Fl (of_int a)"
  using assms by (cases f) (auto split: if_splits)

lemma validate_ok_py_int:
  assumes "validate_user_data name age = Inr (True, e)" "py_int age = Inr a"
  shows "1 \<le> a \<and> a \<le> 120"
proof -
  from validate_ok_D(3)[OF assms(1)] obtain f a'
    where f: "py_float age = Inr f" and int: "is_integer f"
      and a': "py_int (PFloat f) = Inr a'" and range: "1 \<le> a'" "a' \<le> 120"
    by blast
  have fa: "f = Fl (of_int a')" using int a' by (rule is_integer_py_int)
  have r: "(1::rat) \<le> of_int a'" "(of_int a' :: rat) \<le> 120" using range by simp_all
  have from_int: "a = a'" if "to_double (of_int a) = Fl (of_int a')"
  proof -
    from that r have "(of_int a' :: rat) = of_int a" by (rule to_double_int_range)
    then show ?thesis by simp
  qed
  show ?thesis
  proof (cases age)
    case PNone
    with assms(2) show ?thesis by simp
  next
    case (PBool b)
    with f fa assms(2) range show ?thesis by (cases b) auto
  next
    case (PInt n)
    with f fa have "to_double (of_int n) = Fl (of_int a')"
      by (auto split: pyfloat.splits)
    then have "n = a'" using r to_double_int_range[of n "of_int a'"] by simp
    with PInt assms(2) range show ?thesis by simp
  next
    case (PFloat g)
    with f a' assms(2) range show ?thesis by simp
  next
    case (PStr s)
    with assms(2) have "py_int_str s = Inr a" by simp
    then have "py_float_str s = Inr (to_double (of_int a))" by (rule py_int_float_str)
    with PStr f fa have "to_double (of_int a) = Fl (of_int a')" by simp
    then have "a = a'" by (rule from_int)
    with range show ?thesis by simp
  qed
qed

lemma py_float_small_int:
  assumes "\<bar>n\<bar> < 2 ^ 53"
  shows "py_float (PInt n) = Inr (Fl (of_int n))"
  using to_double_of_int[OF assms] by simp

lemma validate_int_age:
  assumes "py_strip s \<noteq> []" "\<bar>n\<bar> < 2 ^ 53"
  shows "validate_user_data (PStr s) (PInt n) =
           (if n \<le> 0 \<or> 120 < n then Inr (False, ''Age must be between 1 and 120'')
            else Inr (True, []))"
  using assms(1) py_float_small_int[OF assms(2)]
  by (simp add: validate_user_data_def)

lemma validate_float_age:
  assumes "py_strip s \<noteq> []"
  shows "validate_user_data (PStr s) (PFloat (Fl r)) =
           (if of_int \<lfloor>r\<rfloor> \<noteq> r then Inr (False, ''Age must be an integer'')
            else if \<lfloor>r\<rfloor> \<le> 0 \<or> 120 < \<lfloor>r\<rfloor> then Inr (False, ''Age must be between 1 and 120'')
            else Inr (True, []))"
proof (cases "of_int \<lfloor>r\<rfloor> = r")
  case True
  then have "\<lceil>r\<rceil> = \<lfloor>r\<rfloor>" by (metis ceiling_of_int)
  with True assms show ?thesis by (simp add: validate_user_data_def)
next
  case False
  with assms show ?thesis by (simp add: validate_user_data_def)
qed

lemma validate_user_data_examples:
  assumes "py_strip s \<noteq> []"
  shows "validate_user_data (PStr s) (PInt 0) = Inr (False, ''Age must be between 1 and 120'')"
    and "validate_user_data (PStr s) (PInt 121) = Inr (False, ''Age must be between 1 and 120'')"
    and "validate_user_data (PStr s) (PInt 1) = Inr (True, [])"
    and "validate_user_data (PStr s) (PInt 120) = Inr (True, [])"
    and "validate_user_data (PStr s) (PFloat (Fl (61 / 2))) = Inr (False, ''Age must be an integer'')"
    and "validate_user_data (PStr s) (PStr ''abc'') = Inr (False, ''Age must be a number'')"
    and "validate_user_data (PStr s) (PFloat (Fl 30)) = Inr (True, [])"
    and "py_int (PFloat (Fl 30)) = Inr 30"
proof -
  show "validate_user_data (PStr s) (PInt 0) = Inr (False, ''Age must be between 1 and 120'')"
    using validate_int_age[OF assms, of 0] by simp
  show "validate_user_data (PStr s) (PInt 121) = Inr (False, ''Age must be between 1 and 120'')"
    using validate_int_age[OF assms, of 121] by simp
  show "validate_user_data (PStr s) (PInt 1) = Inr (True, [])"
    using validate_int_age[OF assms, of 1] by simp
  show "validate_user_data (PStr s) (PInt 120) = Inr (True, [])"
    using validate_int_age[OF assms, of 120] by simp
  have fl: "\<lfloor>61 / 2 :: rat\<rfloor> = 30" by (simp add: floor_eq_iff)
  show "validate_user_data (PStr s) (PFloat (Fl (61 / 2))) = Inr (False, ''Age must be an integer'')"
    using validate_float_age[OF assms, of "61 / 2"] by (simp add: fl)
  have abc: "py_float_str ''abc'' = Inl ValueError" by code_simp
  show "validate_user_data (PStr s) (PStr ''abc'') = Inr (False, ''Age must be a number'')"
    using assms by (simp add: validate_user_data_def abc)
  show "validate_user_data (PStr s) (PFloat (Fl 30)) = Inr (True, [])"
    using validate_float_age[OF assms, of 30] by simp
  show "py_int (PFloat (Fl 30)) = Inr 30" by simp
qed

section \<open>The registry invariant\<close>

lemma user_exists_iff: "user_exists name us \<longleftrightarrow> name \<in> Name ` set us"
  by (auto simp: user_exists_def list_ex_iff)

lemma registry_inv_Nil: "registry_inv []"
  by (simp add: registry_inv_def)

lemma registry_inv_append:
  assumes "registry_inv us" "valid_user u" "\<not> user_exists (Name u) us"
  shows "registry_inv (us @ [u])"
  using assms by (auto simp: registry_inv_def user_exists_iff)

lemma registry_inv_remove1:
  assumes "registry_inv us"
  shows "registry_inv (remove1 u us)"
proof -
  have "list_all valid_user (remove1 u us)"
    using assms by (auto simp: registry_inv_def list_all_iff dest: notin_set_remove1)
  moreover have "distinct (map Name (remove1 u us))"
    using assms by (auto simp: registry_inv_def distinct_map intro: inj_on_diff)
  ultimately show ?thesis by (simp add: registry_inv_def)
qed

lemma new_user_valid:
  assumes "validate_user_data name age = Inr (True, e)" "py_int age = Inr a"
  shows "valid_user \<lparr>Name = py_strip (str_value name), Age = a\<rparr>"
proof -
  from validate_ok_D(1)[OF assms(1)] obtain s where "name = PStr s" "py_strip s \<noteq> []" by blast
  moreover have "1 \<le> a \<and> a \<le> 120" using assms by (rule validate_ok_py_int)
  ultimately show ?thesis by (simp add: valid_user_def py_strip_idem)
qed

lemma create_user_inv:
  assumes "registry_inv us"
  shows "registry_inv (snd (create_user data us))"
proof (cases "\<exists>u. snd (create_user data us) = us @ [u]")
  case False
  then have "snd (create_user data us) = us"
    by (auto simp: create_user_def Let_def split: option.splits sum.splits if_splits prod.splits)
  with assms show ?thesis by simp
next
  case True
  then obtain u where u: "snd (create_user data us) = us @ [u]" by blast
  then obtain name age e a where "validate_user_data name age = Inr (True, e)"
      "py_int age = Inr a" "u = \<lparr>Name = py_strip (str_value name), Age = a\<rparr>"
      "\<not> user_exists (Name u) us"
    by (auto simp: create_user_def Let_def split: option.splits sum.splits if_splits prod.splits)
  then have "valid_user u" "\<not> user_exists (Name u) us" by (auto intro: new_user_valid)
  with assms show ?thesis unfolding u by (rule registry_inv_append)
qed

lemma delete_user_inv:
  assumes "registry_inv us"
  shows "registry_inv (snd (delete_user name us))"
  using assms by (auto simp: delete_user_def registry_inv_remove1 split: option.splits)

lemma upload_loop_inv:
  assumes "registry_inv us"
  shows "registry_inv (snd (upload_loop idx rws us added invalid))"
  using assms
proof (induction rws arbitrary: idx us added invalid)
  case Nil
  then show ?case by simp
next
  case (Cons row rest)
  define name where "name = dict_get row ''Name''"
  define age where "age = dict_get row ''Age''"
  show ?case
  proof (cases "validate_user_data name age")
    case (Inl e)
    with Cons.prems show ?thesis by (simp add: name_def[symmetric] age_def[symmetric])
  next
    case (Inr res)
    obtain is_valid err where res: "res = (is_valid, err)" by (cases res)
    show ?thesis
    proof (cases is_valid)
      case False
      with Inr res Cons show ?thesis by (simp add: name_def[symmetric] age_def[symmetric])
    next
      case True
      have v: "validate_user_data name age = Inr (True, err)" using Inr res True by simp
      show ?thesis
      proof (cases "py_int age")
        case (Inl e)
        with v Cons.prems show ?thesis by (simp add: name_def[symmetric] age_def[symmetric])
      next
        case a: (Inr a)
        define u where "u = \<lparr>Name = py_strip (str_value name), Age = a\<rparr>"
        show ?thesis
        proof (cases "user_exists (py_strip (str_value name)) us")
          case True
          with v a Cons show ?thesis by (simp add: name_def[symmetric] age_def[symmetric])
        next
          case False
          have "valid_user u" unfolding u_def using v a by (rule new_user_valid)
          with Cons.prems False have "registry_inv (us @ [u])"
            by (intro registry_inv_append) (auto simp: u_def)
          then have "registry_inv (snd (upload_loop (idx + 1) rest (us @ [u]) (added @ [u]) invalid))"
            by (rule Cons.IH)
          with v a False show ?thesis
            by (simp add: name_def[symmetric] age_def[symmetric] u_def Let_def)
        qed
      qed
    qed
  qed
qed

lemma upload_users_inv:
  assumes "registry_inv us"
  shows "registry_inv (snd (upload_users files us))"
proof (cases files)
  case None
  with assms show ?thesis by (simp add: upload_users_def)
next
  case (Some fl)
  show ?thesis
  proof (cases "read_csv fl")
    case (Inl e)
    with Some assms show ?thesis by (simp add: upload_users_def)
  next
    case (Inr df)
    have "registry_inv (snd (upload_loop 0 (to_dict_records df) us [] []))"
      using assms by (rule upload_loop_inv)
    with Some Inr assms show ?thesis
      by (auto simp: upload_users_def split: prod.splits sum.splits)
  qed
qed

lemma snd_get_users: "snd (get_users us) = us"
  by (simp add: get_users_def)

lemma snd_get_average_age_by_group: "snd (get_average_age_by_group us) = us"
  by (simp add: get_average_age_by_group_def)

lemma dispatch_inv:
  assumes "registry_inv us"
  shows "registry_inv (dispatch r us)"
  using assms
  by (cases r)
    (simp_all add: create_user_inv delete_user_inv upload_users_inv snd_get_users
       snd_get_average_age_by_group)

lemma reachable_inv: "reachable us \<Longrightarrow> registry_inv us"
  by (induction rule: reachable.induct) (simp_all add: registry_inv_Nil dispatch_inv)

text \<open>
  \<^bold>\<open>C1\<close> (registry invariant). The registry starts empty and changes only through the
  handlers. In every registry reachable by any sequence of requests (create, delete, upload
  and the two reads, with arbitrary arguments, including requests that end in an exception),
  every stored record has a non-empty name that is its own trimmed form and an integer age
  between 1 and 120, and no two stored records have the same name.
\<close>

theorem registry_invariant:
  assumes "reachable us"
  shows "(\<forall>u\<in>set us. Name u \<noteq> [] \<and> py_strip (Name u) = Name u \<and> 1 \<le> Age u \<and> Age u \<le> 120)
         \<and> distinct (map Name us)"
  using reachable_inv[OF assms] by (simp add: registry_inv_def valid_user_def list_all_iff)

theorem registry_invariant_witness:
  "reachable
     (dispatch (CreateUser (Some [(''Name'', PStr ''Amy''), (''Age'', PStr ''41'')]))
       (dispatch (CreateUser (Some [(''Name'', PStr '' John ''), (''Age'', PFloat (Fl 30))])) []))
   \<and> dispatch (CreateUser (Some [(''Name'', PStr ''Amy''), (''Age'', PStr ''41'')]))
       (dispatch (CreateUser (Some [(''Name'', PStr '' John ''), (''Age'', PFloat (Fl 30))])) [])
     = [\<lparr>Name = ''John'', Age = 30\<rparr>, \<lparr>Name = ''Amy'', Age = 41\<rparr>]
   \<and> py_strip ''John'' = ''John'' \<and> py_strip ''Amy'' = ''Amy''
   \<and> distinct (map Name [\<lparr>Name = ''John'', Age = 30\<rparr>, \<lparr>Name = ''Amy'', Age = 41\<rparr>])"
proof -
  let ?s = "dispatch (CreateUser (Some [(''Name'', PStr ''Amy''), (''Age'', PStr ''41'')]))
       (dispatch (CreateUser (Some [(''Name'', PStr '' John ''), (''Age'', PFloat (Fl 30))])) [])"
  have r: "reachable ?s"
    by (intro reachable_step reachable_init)
  have s: "?s = [\<lparr>Name = ''John'', Age = 30\<rparr>, \<lparr>Name = ''Amy'', Age = 41\<rparr>]"
    by code_simp
  from registry_invariant[OF r] have
    "(\<forall>u\<in>set ?s. Name u \<noteq> [] \<and> py_strip (Name u) = Name u \<and> 1 \<le> Age u \<and> Age u \<le> 120)
       \<and> distinct (map Name ?s)" .
  then have "py_strip ''John'' = ''John'' \<and> py_strip ''Amy'' = ''Amy''
     \<and> distinct (map Name [\<lparr>Name = ''John'', Age = 30\<rparr>, \<lparr>Name = ''Amy'', Age = 41\<rparr>])"
    unfolding s by simp
  with r s show ?thesis by blast
qed

section \<open>The validator\<close>

text \<open>
  \<^bold>\<open>C2\<close> (validator), where the code leaves the claim. The name is checked before the age
  (\<open>validate_name_first\<close>), the age checks come in the order presence, numeric, integral,
  range (\<open>validate_age_missing\<close>, \<open>validate_float_age\<close>, \<open>validate_int_age\<close>), and the
  boundary cases of the claim come out as it says (\<open>validate_user_data_examples\<close>). But
  not every input gets a reason: for a valid name and an integer age of \<open>2 ^ 1024\<close> or more,
  \<^verbatim>\<open>float(age)\<close> raises \<^verbatim>\<open>OverflowError\<close>, which the \<^verbatim>\<open>except (ValueError, TypeError)\<close>
  clause does not catch, and the validator returns nothing.
\<close>

theorem validate_user_data_overflow:
  assumes "py_strip s \<noteq> []" and "2 ^ 1024 \<le> n"
  shows "validate_user_data (PStr s) (PInt n) = Inl OverflowError"
proof -
  have "(of_int (2 ^ 1024) :: rat) \<le> of_int n" using assms(2) by (simp only: of_int_le_iff)
  then have "(2::rat) ^ 1024 \<le> of_int n" by simp
  then have "to_double (of_int n) = PosInf" by (rule to_double_overflow)
  then show ?thesis using assms(1) by (simp add: validate_user_data_def)
qed

theorem validate_user_data_overflow_witness:
  "py_strip ''John'' \<noteq> [] \<and> validate_user_data (PStr ''John'') (PInt (2 ^ 1024)) = Inl OverflowError"
proof -
  have h: "py_strip ''John'' \<noteq> []" by code_simp
  from validate_user_data_overflow[OF h, of "2 ^ 1024"] h show ?thesis by simp
qed

text \<open>
  \<^bold>\<open>C5\<close> (missing age), as the code has it. With a valid name, an age that is missing or
  null (\<^verbatim>\<open>None\<close>, or the NaN that pandas puts in an empty cell) is rejected by the
  presence check with the message \<^verbatim>\<open>Age cannot be empty\<close>. This is an error of its own:
  it is not the message \<^verbatim>\<open>Age must be a number\<close> that an unparseable age such as
  \<^verbatim>\<open>"abc"\<close> gets.
\<close>

theorem missing_age_own_error:
  assumes "py_strip s \<noteq> []" and "age = PNone \<or> age = PFloat NaN"
  shows "validate_user_data (PStr s) age = Inr (False, ''Age cannot be empty'')
         \<and> validate_user_data (PStr s) age \<noteq> Inr (False, ''Age must be a number'')
         \<and> validate_user_data (PStr s) (PStr ''abc'') = Inr (False, ''Age must be a number'')"
proof -
  have na: "pd_isna age" using assms(2) by auto
  have 1: "validate_user_data (PStr s) age = Inr (False, ''Age cannot be empty'')"
    using assms(1) na by (rule validate_age_missing)
  have abc: "py_float_str ''abc'' = Inl ValueError" by code_simp
  have 3: "validate_user_data (PStr s) (PStr ''abc'') = Inr (False, ''Age must be a number'')"
    using assms(1) by (simp add: validate_user_data_def abc)
  from 1 3 show ?thesis by simp
qed

theorem missing_age_own_error_witness:
  "py_strip ''John'' \<noteq> []
   \<and> validate_user_data (PStr ''John'') PNone = Inr (False, ''Age cannot be empty'')
   \<and> validate_user_data (PStr ''John'') (PStr ''abc'') = Inr (False, ''Age must be a number'')"
proof -
  have h: "py_strip ''John'' \<noteq> []" by code_simp
  from missing_age_own_error[OF h, of PNone] h show ?thesis by simp
qed

theorem missing_age_not_a_number_counterexample:
  "validate_user_data (PStr ''John'') PNone \<noteq> Inr (False, ''Age must be a number'')
   \<and> validate_user_data (PStr ''John'') PNone \<noteq> validate_user_data (PStr ''John'') (PStr ''abc'')"
  by code_simp

section \<open>Creating a user\<close>

lemma decimal_string_30:
  "py_float_str ''30.0'' = Inr (Fl 30)" "py_int_str ''30.0'' = Inl ValueError"
  by code_simp+

lemma validate_decimal_string:
  assumes "py_strip s \<noteq> []"
  shows "validate_user_data (PStr s) (PStr ''30.0'') = Inr (True, [])"
  using assms by (simp add: validate_user_data_def decimal_string_30)

lemma create_user_cases:
  assumes "d \<noteq> []"
  shows "validate_user_data (dict_get d ''Name'') (dict_get d ''Age'') = Inr (False, err) \<Longrightarrow>
           create_user (Some d) us = (Inr (error_body err, 400), us)"
    and "validate_user_data (dict_get d ''Name'') (dict_get d ''Age'') = Inr (True, e) \<Longrightarrow>
         py_int (dict_get d ''Age'') = Inr a \<Longrightarrow>
         user_exists (py_strip (str_value (dict_get d ''Name''))) us \<Longrightarrow>
           create_user (Some d) us = (Inr (error_body ''User already exists'', 400), us)"
    and "validate_user_data (dict_get d ''Name'') (dict_get d ''Age'') = Inr (True, e) \<Longrightarrow>
         py_int (dict_get d ''Age'') = Inr a \<Longrightarrow>
         \<not> user_exists (py_strip (str_value (dict_get d ''Name''))) us \<Longrightarrow>
           create_user (Some d) us =
             (Inr (user_json \<lparr>Name = py_strip (str_value (dict_get d ''Name'')), Age = a\<rparr>, 201),
              us @ [\<lparr>Name = py_strip (str_value (dict_get d ''Name'')), Age = a\<rparr>])"
    and "validate_user_data (dict_get d ''Name'') (dict_get d ''Age'') = Inr (True, e) \<Longrightarrow>
         py_int (dict_get d ''Age'') = Inl x \<Longrightarrow>
           create_user (Some d) us = (Inl x, us)"
    and "validate_user_data (dict_get d ''Name'') (dict_get d ''Age'') = Inl x \<Longrightarrow>
           create_user (Some d) us = (Inl x, us)"
  using assms by (simp_all add: create_user_def Let_def)

lemma create_user_listed:
  assumes "create_user data us = (Inr (body, 201), us')"
  shows "\<exists>u. body = user_json u \<and> us' = us @ [u] \<and> \<not> user_exists (Name u) us \<and>
             fst (get_users us') =
               (JDict [(''data'', JList (map user_json us @ [user_json u])),
                       (''count'', JVal (PInt (int (length us) + 1)))], 200)"
  using assms
  by (auto simp: create_user_def get_users_def error_body_def Let_def
      split: option.splits if_splits sum.splits prod.splits)

text \<open>
  \<^bold>\<open>C3\<close> (create), where the code leaves the claim. With a present, non-empty body,
  create answers with the validator's reason when the validator rejects, with
  \<^verbatim>\<open>User already exists\<close> when the trimmed name is stored, and otherwise appends one record
  and returns it (\<open>create_user_cases\<close>) -- provided \<^verbatim>\<open>int(age)\<close> yields an integer. The
  validator judges \<^verbatim>\<open>float(age)\<close>, create stores \<^verbatim>\<open>int(age)\<close> of the request's value: for
  the string \<^verbatim>\<open>"30.0"\<close> the validator accepts (30.0 is integral and in range) and
  \<^verbatim>\<open>int("30.0")\<close> raises \<^verbatim>\<open>ValueError\<close>. The request ends in the exception, in
  every registry: nothing is appended, and a stored name is not reported as a duplicate.
\<close>

theorem create_user_decimal_string_raises:
  assumes "py_strip s \<noteq> []"
  shows "validate_user_data (PStr s) (PStr ''30.0'') = Inr (True, [])
         \<and> create_user (Some [(''Name'', PStr s), (''Age'', PStr ''30.0'')]) us = (Inl ValueError, us)"
proof -
  let ?d = "[(''Name'', PStr s), (''Age'', PStr ''30.0'')]"
  have n: "dict_get ?d ''Name'' = PStr s" and a: "dict_get ?d ''Age'' = PStr ''30.0''"
    by (simp_all add: dict_get_def)
  have v: "validate_user_data (dict_get ?d ''Name'') (dict_get ?d ''Age'') = Inr (True, [])"
    unfolding n a using assms by (rule validate_decimal_string)
  have i: "py_int (dict_get ?d ''Age'') = Inl ValueError"
    unfolding a by (simp add: decimal_string_30)
  have "?d \<noteq> []" by simp
  from create_user_cases(4)[OF this v i] v show ?thesis by (simp only: n a)
qed

theorem create_user_decimal_string_raises_witness:
  "py_strip ''Bob'' \<noteq> []
   \<and> validate_user_data (PStr ''Bob'') (PStr ''30.0'') = Inr (True, [])
   \<and> create_user (Some [(''Name'', PStr ''Bob''), (''Age'', PStr ''30.0'')]) [] = (Inl ValueError, [])
   \<and> create_user (Some [(''Name'', PStr ''Bob''), (''Age'', PStr ''30.0'')]) [\<lparr>Name = ''Bob'', Age = 25\<rparr>]
       = (Inl ValueError, [\<lparr>Name = ''Bob'', Age = 25\<rparr>])"
proof -
  have h: "py_strip ''Bob'' \<noteq> []" by code_simp
  from create_user_decimal_string_raises[OF h, of "[]"]
    create_user_decimal_string_raises[OF h, of "[\<lparr>Name = ''Bob'', Age = 25\<rparr>]"] h
  show ?thesis by simp
qed

text \<open>
  \<^bold>\<open>C9\<close> (missing or empty body), as the code has it. A \<^verbatim>\<open>POST /users\<close> whose decoded
  body is missing or is the empty object is answered 400 \<^verbatim>\<open>Name and age are required\<close>,
  whatever the validator would say, and the registry is unchanged. A body that is present
  and not empty goes to the validator: without a \<^verbatim>\<open>Name\<close> field the answer is the
  validator's \<^verbatim>\<open>Name cannot be empty\<close>; with a valid \<^verbatim>\<open>Name\<close> but without an
  \<^verbatim>\<open>Age\<close> field it is the validator's \<^verbatim>\<open>Age cannot be empty\<close>. The registry is
  unchanged in each case.
\<close>

theorem create_user_body_branches:
  "((data = None \<or> data = Some []) \<longrightarrow>
      create_user data us = (Inr (error_body ''Name and age are required'', 400), us))
   \<and> (d \<noteq> [] \<and> map_of d ''Name'' = None \<longrightarrow>
        create_user (Some d) us = (Inr (error_body ''Name cannot be empty'', 400), us))
   \<and> (map_of d ''Name'' = Some (PStr s) \<and> py_strip s \<noteq> [] \<and> map_of d ''Age'' = None \<longrightarrow>
        create_user (Some d) us = (Inr (error_body ''Age cannot be empty'', 400), us))"
proof (intro conjI impI)
  assume "data = None \<or> data = Some []"
  then show "create_user data us = (Inr (error_body ''Name and age are required'', 400), us)"
    by (auto simp: create_user_def)
next
  assume a: "d \<noteq> [] \<and> map_of d ''Name'' = None"
  then have "dict_get d ''Name'' = PNone" by (simp add: dict_get_def)
  then have "validate_user_data (dict_get d ''Name'') (dict_get d ''Age'')
      = Inr (False, ''Name cannot be empty'')"
    by (simp add: validate_name_first)
  with a show "create_user (Some d) us = (Inr (error_body ''Name cannot be empty'', 400), us)"
    by (simp add: create_user_def)
next
  assume a: "map_of d ''Name'' = Some (PStr s) \<and> py_strip s \<noteq> [] \<and> map_of d ''Age'' = None"
  then have d: "d \<noteq> []" by auto
  from a have "dict_get d ''Name'' = PStr s" "dict_get d ''Age'' = PNone"
    by (simp_all add: dict_get_def)
  with a have "validate_user_data (dict_get d ''Name'') (dict_get d ''Age'')
      = Inr (False, ''Age cannot be empty'')"
    by (simp add: validate_age_missing)
  with d show "create_user (Some d) us = (Inr (error_body ''Age cannot be empty'', 400), us)"
    by (simp add: create_user_def)
qed

theorem create_user_body_branches_witness:
  "create_user (Some []) [\<lparr>Name = ''Amy'', Age = 41\<rparr>]
     = (Inr (error_body ''Name and age are required'', 400), [\<lparr>Name = ''Amy'', Age = 41\<rparr>])
   \<and> create_user (Some [(''Age'', PInt 30)]) [\<lparr>Name = ''Amy'', Age = 41\<rparr>]
     = (Inr (error_body ''Name cannot be empty'', 400), [\<lparr>Name = ''Amy'', Age = 41\<rparr>])
   \<and> create_user (Some [(''Name'', PStr ''John'')]) [\<lparr>Name = ''Amy'', Age = 41\<rparr>]
     = (Inr (error_body ''Age cannot be empty'', 400), [\<lparr>Name = ''Amy'', Age = 41\<rparr>])"
proof -
  let ?us = "[\<lparr>Name = ''Amy'', Age = 41\<rparr>]"
  have s: "py_strip ''John'' \<noteq> []" by code_simp
  have 1: "create_user (Some []) ?us = (Inr (error_body ''Name and age are required'', 400), ?us)"
    using create_user_body_branches[of "Some []" ?us "[]" "[]"] by simp
  have 2: "create_user (Some [(''Age'', PInt 30)]) ?us
      = (Inr (error_body ''Name cannot be empty'', 400), ?us)"
    using create_user_body_branches[of None ?us "[(''Age'', PInt 30)]" "[]"] by simp
  have 3: "create_user (Some [(''Name'', PStr ''John'')]) ?us
      = (Inr (error_body ''Age cannot be empty'', 400), ?us)"
    using create_user_body_branches[of None ?us "[(''Name'', PStr ''John'')]" "''John''"] s
    by simp
  from 1 2 3 show ?thesis by blast
qed

theorem missing_age_field_counterexample:
  "create_user (Some [(''Name'', PStr ''John'')]) []
     = (Inr (error_body ''Age cannot be empty'', 400), [])
   \<and> create_user (Some [(''Name'', PStr ''John'')]) []
     \<noteq> (Inr (error_body ''Name cannot be empty'', 400), [])"
  by code_simp

section \<open>Uploading users\<close>

lemma upload_loop_appends:
  assumes "upload_loop idx rws us added invalid = (Inr (added', invalid'), us')"
  shows "\<exists>new. added' = added @ new \<and> us' = us @ new"
  using assms
proof (induction rws arbitrary: idx us added invalid)
  case Nil
  then show ?case by simp
next
  case (Cons row rest)
  from Cons.prems obtain i u a v
    where "upload_loop i rest u a v = (Inr (added', invalid'), us')"
      and "(u = us \<and> a = added) \<or> (\<exists>x. u = us @ [x] \<and> a = added @ [x])"
    by (auto simp: Let_def split: sum.splits prod.splits if_splits)
  with Cons.IH[of i u a v] show ?case by auto
qed

lemma upload_users_example:
  "upload_users
     (Some \<lparr>filename = ''users.csv'',
            read_csv = Inr \<lparr>columns = [''Name'', ''Age''],
                             rows = [[PStr ''John'', PInt 31], [PStr ''Jane'', PInt 25],
                                     [PStr '' Jane '', PInt 26], [PFloat NaN, PInt 5],
                                     [PStr ''Bob'', PInt 200]]\<rparr>\<rparr>)
     [\<lparr>Name = ''John'', Age = 30\<rparr>]
   = (Inr (JDict [(''message'', JVal (PStr ''Successfully added 1 users'')),
                  (''added_users'', JList [user_json \<lparr>Name = ''Jane'', Age = 25\<rparr>]),
                  (''invalid_users'',
                     JList [row_error 2 ''User John already exists'',
                            row_error 4 ''User Jane already exists'',
                            row_error 5 ''Name cannot be empty'',
                            row_error 6 ''Age must be between 1 and 120'']),
                  (''warning'',
                     JVal (PStr ''4 rows skipped due to validation errors or duplicates''))],
           201),
      [\<lparr>Name = ''John'', Age = 30\<rparr>, \<lparr>Name = ''Jane'', Age = 25\<rparr>])"
proof -
  have digits: "char_of (49::nat) = CHR ''1''" "char_of (52::nat) = CHR ''4''" by code_simp+
  show ?thesis
    by (simp add: upload_users_def py_endswith_def to_dict_records_def dict_get_def
        validate_user_data_def py_strip_def py_isspace_def to_double_numeral user_exists_def
        upload_response_def str_nat.simps row_error_def digits Let_def)
qed

lemma upload_loop_raises:
  assumes "validate_user_data (dict_get row ''Name'') (dict_get row ''Age'') = Inr (True, e)"
    and "py_int (dict_get row ''Age'') = Inl x"
  shows "upload_loop idx (row # rest) us added invalid = (Inl x, us)"
  using assms by (simp add: Let_def)

text \<open>
  \<^bold>\<open>C4\<close> (upload, row by row), where the code leaves the claim. A row that the validator
  rejects or whose name is stored is recorded with its index plus 2 and the loop goes on
  (\<open>upload_loop\<close>); but a row whose age is the string \<^verbatim>\<open>"30.0"\<close> -- what pandas gives when
  another cell of the column is not numeric -- passes the validator and then raises
  \<^verbatim>\<open>ValueError\<close> in \<^verbatim>\<open>int(age)\<close>. The upload ends there: the row is neither added nor
  reported, the rows after it are not processed, and no report is returned.
\<close>

theorem upload_users_decimal_string_raises:
  assumes "py_strip s \<noteq> []"
  shows "upload_users
           (Some \<lparr>filename = ''users.csv'',
                  read_csv = Inr \<lparr>columns = [''Name'', ''Age''],
                                   rows = [PStr s, PStr ''30.0''] # rest\<rparr>\<rparr>) us
         = (Inl ValueError, us)"
proof -
  let ?row = "[(''Name'', PStr s), (''Age'', PStr ''30.0'')]"
  let ?df = "\<lparr>columns = [''Name'', ''Age''], rows = [PStr s, PStr ''30.0''] # rest\<rparr>"
  have recs: "to_dict_records ?df = ?row # map (\<lambda>r. zip [''Name'', ''Age''] r) rest"
    by (simp add: to_dict_records_def)
  have n: "dict_get ?row ''Name'' = PStr s" and a: "dict_get ?row ''Age'' = PStr ''30.0''"
    by (simp_all add: dict_get_def)
  have v: "validate_user_data (dict_get ?row ''Name'') (dict_get ?row ''Age'') = Inr (True, [])"
    unfolding n a using assms by (rule validate_decimal_string)
  have i: "py_int (dict_get ?row ''Age'') = Inl ValueError"
    unfolding a by (simp add: decimal_string_30)
  have loop: "upload_loop 0 (to_dict_records ?df) us [] [] = (Inl ValueError, us)"
    unfolding recs using v i by (rule upload_loop_raises)
  have csv: "py_endswith ''users.csv'' ''.csv''" by (simp add: py_endswith_def)
  show ?thesis by (simp add: upload_users_def csv loop del: upload_loop.simps)
qed

theorem upload_users_decimal_string_raises_witness:
  "py_strip ''John'' \<noteq> []
   \<and> upload_users
        (Some \<lparr>filename = ''users.csv'',
               read_csv = Inr \<lparr>columns = [''Name'', ''Age''],
                                rows = [[PStr ''John'', PStr ''30.0''], [PStr ''Jane'', PStr ''abc'']]\<rparr>\<rparr>) []
      = (Inl ValueError, [])"
proof -
  have h: "py_strip ''John'' \<noteq> []" by code_simp
  from upload_users_decimal_string_raises[OF h, of "[[PStr ''Jane'', PStr ''abc'']]" "[]"] h
  show ?thesis by simp
qed

lemma upload_users_partial_example:
  "upload_users
     (Some \<lparr>filename = ''users.csv'',
            read_csv = Inr \<lparr>columns = [''Name'', ''Age''],
                             rows = [[PStr ''Ann'', PStr ''25''], [PStr ''John'', PStr ''30.0''],
                                     [PStr ''Jane'', PStr ''abc'']]\<rparr>\<rparr>) []
   = (Inl ValueError, [\<lparr>Name = ''Ann'', Age = 25\<rparr>])"
  by code_simp

text \<open>
  \<^bold>\<open>C8\<close> (missing columns). When the uploaded file has a name ending in \<^verbatim>\<open>.csv\<close> and
  parses to a table that lacks the column \<^verbatim>\<open>Name\<close> or the column \<^verbatim>\<open>Age\<close> (compared
  exactly), the upload answers 400 with the missing-columns message, whatever the rows hold,
  and the registry is unchanged.
\<close>

theorem upload_missing_columns:
  assumes "filename f \<noteq> []" and "py_endswith (filename f) ''.csv''"
    and "read_csv f = Inr df"
    and "''Name'' \<notin> set (columns df) \<or> ''Age'' \<notin> set (columns df)"
  shows "upload_users (Some f) us =
           (Inr (error_body ''CSV must contain \"Name\" and \"Age\" columns'', 400), us)"
  using assms by (auto simp: upload_users_def)

theorem upload_missing_columns_witness:
  "upload_users
     (Some \<lparr>filename = ''test.csv'',
            read_csv = Inr \<lparr>columns = [''Name'', ''age''],
                             rows = [[PStr ''John'', PInt 30], [PStr ''Jane'', PStr ''30.0'']]\<rparr>\<rparr>)
     [\<lparr>Name = ''Amy'', Age = 41\<rparr>]
   = (Inr (error_body ''CSV must contain \"Name\" and \"Age\" columns'', 400),
      [\<lparr>Name = ''Amy'', Age = 41\<rparr>])"
proof -
  let ?df = "\<lparr>columns = [''Name'', ''age''],
               rows = [[PStr ''John'', PInt 30], [PStr ''Jane'', PStr ''30.0'']]\<rparr>"
  let ?f = "\<lparr>filename = ''test.csv'', read_csv = Inr ?df\<rparr>"
  have 1: "filename ?f \<noteq> []" by simp
  have 2: "py_endswith (filename ?f) ''.csv''" by (simp add: py_endswith_def)
  have 3: "read_csv ?f = Inr ?df" by simp
  have 4: "''Name'' \<notin> set (columns ?df) \<or> ''Age'' \<notin> set (columns ?df)" by simp
  show ?thesis by (rule upload_missing_columns[OF 1 2 3 4])
qed

section \<open>The average age by group\<close>

lemma group_of_nonempty:
  assumes "Name u \<noteq> []"
  shows "group_of u = Some g \<longleftrightarrow> py_upper (hd (Name u)) = g"
  using assms by (cases "Name u") (auto simp: group_of_def)

lemma set_map_filter_conv: "set (List.map_filter f xs) = {y. \<exists>x\<in>set xs. f x = Some y}"
  by (induction xs) (auto split: option.splits)

lemma set_group_keys: "set (group_keys us) = {g. \<exists>u\<in>set us. group_of u = Some g}"
  by (simp add: group_keys_def set_map_filter_conv)

lemma distinct_group_keys: "distinct (group_keys us)"
  by (simp add: group_keys_def)

lemma group_keys_names:
  assumes "\<forall>u\<in>set us. Name u \<noteq> []"
  shows "set (group_keys us) = {py_upper (hd (Name u)) | u. u \<in> set us}"
  using assms by (auto simp: set_group_keys group_of_nonempty)

lemma group_ages_names:
  assumes "\<forall>u\<in>set us. Name u \<noteq> []"
  shows "group_ages g us = map Age (filter (\<lambda>u. py_upper (hd (Name u)) = g) us)"
proof -
  have "filter (\<lambda>u. group_of u = Some g) us = filter (\<lambda>u. py_upper (hd (Name u)) = g) us"
    using assms by (intro filter_cong refl) (simp add: group_of_nonempty)
  then show ?thesis by (simp add: group_ages_def)
qed

lemma group_ages_nonempty:
  assumes "g \<in> set (group_keys us)"
  shows "group_ages g us \<noteq> []"
  using assms by (auto simp: set_group_keys group_ages_def filter_empty_conv)

lemma group_ages_range:
  assumes "registry_inv us"
  shows "\<forall>a\<in>set (group_ages g us). 1 \<le> a \<and> a \<le> 120"
  using assms by (auto simp: registry_inv_def list_all_iff valid_user_def group_ages_def)

lemmas average_defs =
  get_average_age_by_group_def group_averages_def group_keys_def group_of_def
  group_ages_def fl_mean_def np_round2_def py_upper_def code_points_def to_double_numeral
  round_half_even_numeral

lemmas create_defs =
  create_user_def dict_get_def validate_user_data_def py_strip_def py_isspace_def
  to_double_numeral user_exists_def Let_def

lemma average_example:
  "get_average_age_by_group
     [\<lparr>Name = ''Alice'', Age = 20\<rparr>, \<lparr>Name = ''Amy'', Age = 30\<rparr>, \<lparr>Name = ''Bob'', Age = 25\<rparr>]
   = ((JDict [(''average_age'',
               JObj [(code_points ''A'', JVal (PFloat (Fl 25))),
                     (code_points ''B'', JVal (PFloat (Fl 25)))])], 200),
      [\<lparr>Name = ''Alice'', Age = 20\<rparr>, \<lparr>Name = ''Amy'', Age = 30\<rparr>, \<lparr>Name = ''Bob'', Age = 25\<rparr>])"
  by (simp add: average_defs)

text \<open>
  Beyond ASCII: U+00E9 and U+00C9 are one group, U+00C9; the sharp s is the group \<^verbatim>\<open>SS\<close>,
  which comes after the group \<^verbatim>\<open>S\<close>.
\<close>

lemma average_latin1_example:
  "fst (get_average_age_by_group
     [\<lparr>Name = CHR 0xE9 # ''mile'', Age = 20\<rparr>, \<lparr>Name = CHR 0xC9 # ''va'', Age = 30\<rparr>])
   = (JDict [(''average_age'', JObj [([201], JVal (PFloat (Fl 25)))])], 200)"
  "fst (get_average_age_by_group
     [\<lparr>Name = CHR 0xDF # ''a'', Age = 40\<rparr>, \<lparr>Name = ''sam'', Age = 30\<rparr>])
   = (JDict [(''average_age'',
              JObj [(code_points ''S'', JVal (PFloat (Fl 30))),
                    (code_points ''SS'', JVal (PFloat (Fl 40)))])], 200)"
  by (simp_all add: average_defs)

text \<open>
  \<^bold>\<open>C6\<close> (average age by group). In every reachable registry, the handler answers
  404 \<^verbatim>\<open>No users found\<close> exactly when the registry is empty. Otherwise it answers 200 with a
  mapping whose keys are distinct and are exactly the uppercased first characters of the
  stored names (\<^verbatim>\<open>name[0].upper()\<close>, as code points). The value of a key is computed from
  the records of that group, of which there is at least one: it is \<^verbatim>\<open>round(2)\<close> of the
  binary64 mean of their ages, and so the binary64 value of \<open>c / 100\<close> for an integer \<open>c\<close>
  within a half (and a float error below \<open>1 / 2 ^ 33\<close>) of a hundred times the arithmetic
  mean. The records Alice/20, Amy/30 and Bob/25 give \<^verbatim>\<open>{A: 25.0, B: 25.0}\<close>.
\<close>

theorem average_age_by_group_correct:
  assumes "reachable us"
  shows
    "(fst (get_average_age_by_group us) = (error_body ''No users found'', 404) \<longleftrightarrow> us = [])
     \<and> (us \<noteq> [] \<longrightarrow>
          (\<exists>m. fst (get_average_age_by_group us) = (JDict [(''average_age'', JObj m)], 200)
             \<and> distinct (map fst m)
             \<and> set (map fst m) = {py_upper (hd (Name u)) | u. u \<in> set us}
             \<and> (\<forall>k v. (k, v) \<in> set m \<longrightarrow>
                  (let ages = map Age (filter (\<lambda>u. py_upper (hd (Name u)) = k) us);
                       mean = (of_int (sum_list ages) / of_nat (length ages) :: rat)
                   in ages \<noteq> []
                      \<and> v = JVal (PFloat (np_round2 (to_double mean)))
                      \<and> (\<exists>c. v = JVal (PFloat (to_double (of_int c / 100)))
                             \<and> \<bar>of_int c - 100 * mean\<bar> \<le> 1 / 2 + 1 / 2 ^ 33)))))
     \<and> get_average_age_by_group
          [\<lparr>Name = ''Alice'', Age = 20\<rparr>, \<lparr>Name = ''Amy'', Age = 30\<rparr>, \<lparr>Name = ''Bob'', Age = 25\<rparr>]
        = ((JDict [(''average_age'',
                    JObj [(code_points ''A'', JVal (PFloat (Fl 25))),
                          (code_points ''B'', JVal (PFloat (Fl 25)))])], 200),
           [\<lparr>Name = ''Alice'', Age = 20\<rparr>, \<lparr>Name = ''Amy'', Age = 30\<rparr>, \<lparr>Name = ''Bob'', Age = 25\<rparr>])"
proof (intro conjI impI)
  show "fst (get_average_age_by_group us) = (error_body ''No users found'', 404) \<longleftrightarrow> us = []"
    by (simp add: get_average_age_by_group_def)
next
  assume ne: "us \<noteq> []"
  have inv: "registry_inv us" using assms by (rule reachable_inv)
  then have names: "\<forall>u\<in>set us. Name u \<noteq> []"
    by (simp add: registry_inv_def list_all_iff valid_user_def)
  define m where "m = group_averages us"
  have res: "fst (get_average_age_by_group us) = (JDict [(''average_age'', JObj m)], 200)"
    using ne by (simp add: get_average_age_by_group_def m_def)
  have keys: "map fst m = group_keys us"
    by (simp add: m_def group_averages_def comp_def)
  have dist: "distinct (map fst m)"
    unfolding keys by (rule distinct_group_keys)
  have ks: "set (map fst m) = {py_upper (hd (Name u)) | u. u \<in> set us}"
    unfolding keys by (rule group_keys_names[OF names])
  have vals: "\<forall>k v. (k, v) \<in> set m \<longrightarrow>
      (let ages = map Age (filter (\<lambda>u. py_upper (hd (Name u)) = k) us);
           mean = (of_int (sum_list ages) / of_nat (length ages) :: rat)
       in ages \<noteq> []
          \<and> v = JVal (PFloat (np_round2 (to_double mean)))
          \<and> (\<exists>c. v = JVal (PFloat (to_double (of_int c / 100)))
                 \<and> \<bar>of_int c - 100 * mean\<bar> \<le> 1 / 2 + 1 / 2 ^ 33))"
  proof (intro allI impI)
    fix k v
    assume "(k, v) \<in> set m"
    then have k: "k \<in> set (group_keys us)"
      and v: "v = JVal (PFloat (np_round2 (fl_mean (group_ages k us))))"
      by (auto simp: m_def group_averages_def)
    define ages where "ages = group_ages k us"
    have ages_eq: "map Age (filter (\<lambda>u. py_upper (hd (Name u)) = k) us) = ages"
      unfolding ages_def by (rule group_ages_names[OF names, symmetric])
    have ne: "ages \<noteq> []" unfolding ages_def using k by (rule group_ages_nonempty)
    have rg: "\<forall>a\<in>set ages. 1 \<le> a \<and> a \<le> 120"
      unfolding ages_def using inv by (rule group_ages_range)
    from np_round2_mean[OF ne rg] obtain c
      where c: "np_round2 (fl_mean ages) = to_double (of_int c / 100)"
        and ce: "\<bar>(of_int c :: rat) - 100 * (of_int (sum_list ages) / of_nat (length ages))\<bar>
                  \<le> 1 / 2 + 1 / 2 ^ 33"
      by blast
    have v1: "v = JVal (PFloat (np_round2 (to_double (of_int (sum_list ages) / of_nat (length ages)))))"
      using v by (simp add: ages_def fl_mean_def)
    have v2: "v = JVal (PFloat (to_double (of_int c / 100)))"
      using v c by (simp add: ages_def)
    show "let ages = map Age (filter (\<lambda>u. py_upper (hd (Name u)) = k) us);
              mean = (of_int (sum_list ages) / of_nat (length ages) :: rat)
          in ages \<noteq> []
             \<and> v = JVal (PFloat (np_round2 (to_double mean)))
             \<and> (\<exists>c. v = JVal (PFloat (to_double (of_int c / 100)))
                    \<and> \<bar>of_int c - 100 * mean\<bar> \<le> 1 / 2 + 1 / 2 ^ 33)"
      unfolding ages_eq Let_def using ne v1 v2 ce by blast
  qed
  from res dist ks vals
  show "\<exists>m. fst (get_average_age_by_group us) = (JDict [(''average_age'', JObj m)], 200)
      \<and> distinct (map fst m)
      \<and> set (map fst m) = {py_upper (hd (Name u)) | u. u \<in> set us}
      \<and> (\<forall>k v. (k, v) \<in> set m \<longrightarrow>
           (let ages = map Age (filter (\<lambda>u. py_upper (hd (Name u)) = k) us);
                mean = (of_int (sum_list ages) / of_nat (length ages) :: rat)
            in ages \<noteq> []
               \<and> v = JVal (PFloat (np_round2 (to_double mean)))
               \<and> (\<exists>c. v = JVal (PFloat (to_double (of_int c / 100)))
                      \<and> \<bar>of_int c - 100 * mean\<bar> \<le> 1 / 2 + 1 / 2 ^ 33)))"
    by blast
next
  show "get_average_age_by_group
          [\<lparr>Name = ''Alice'', Age = 20\<rparr>, \<lparr>Name = ''Amy'', Age = 30\<rparr>, \<lparr>Name = ''Bob'', Age = 25\<rparr>]
        = ((JDict [(''average_age'',
                    JObj [(code_points ''A'', JVal (PFloat (Fl 25))),
                          (code_points ''B'', JVal (PFloat (Fl 25)))])], 200),
           [\<lparr>Name = ''Alice'', Age = 20\<rparr>, \<lparr>Name = ''Amy'', Age = 30\<rparr>, \<lparr>Name = ''Bob'', Age = 25\<rparr>])"
    by (rule average_example)
qed

theorem average_age_by_group_correct_witness:
  "reachable
     (dispatch (CreateUser (Some [(''Name'', PStr ''Bob''), (''Age'', PInt 25)]))
       (dispatch (CreateUser (Some [(''Name'', PStr ''amy''), (''Age'', PInt 30)]))
         (dispatch (CreateUser (Some [(''Name'', PStr ''Alice''), (''Age'', PInt 20)])) [])))
   \<and> dispatch (CreateUser (Some [(''Name'', PStr ''Bob''), (''Age'', PInt 25)]))
       (dispatch (CreateUser (Some [(''Name'', PStr ''amy''), (''Age'', PInt 30)]))
         (dispatch (CreateUser (Some [(''Name'', PStr ''Alice''), (''Age'', PInt 20)])) []))
     = [\<lparr>Name = ''Alice'', Age = 20\<rparr>, \<lparr>Name = ''amy'', Age = 30\<rparr>, \<lparr>Name = ''Bob'', Age = 25\<rparr>]
   \<and> fst (get_average_age_by_group
          [\<lparr>Name = ''Alice'', Age = 20\<rparr>, \<lparr>Name = ''amy'', Age = 30\<rparr>, \<lparr>Name = ''Bob'', Age = 25\<rparr>])
       \<noteq> (error_body ''No users found'', 404)
   \<and> fst (get_average_age_by_group
          [\<lparr>Name = ''Alice'', Age = 20\<rparr>, \<lparr>Name = ''amy'', Age = 30\<rparr>, \<lparr>Name = ''Bob'', Age = 25\<rparr>])
       = (JDict [(''average_age'',
                  JObj [(code_points ''A'', JVal (PFloat (Fl 25))),
                        (code_points ''B'', JVal (PFloat (Fl 25)))])], 200)"
proof -
  let ?s = "dispatch (CreateUser (Some [(''Name'', PStr ''Bob''), (''Age'', PInt 25)]))
       (dispatch (CreateUser (Some [(''Name'', PStr ''amy''), (''Age'', PInt 30)]))
         (dispatch (CreateUser (Some [(''Name'', PStr ''Alice''), (''Age'', PInt 20)])) []))"
  let ?l = "[\<lparr>Name = ''Alice'', Age = 20\<rparr>, \<lparr>Name = ''amy'', Age = 30\<rparr>, \<lparr>Name = ''Bob'', Age = 25\<rparr>]"
  have r: "reachable ?s" by (intro reachable_step reachable_init)
  have s: "?s = ?l" by (simp add: create_defs)
  have v: "fst (get_average_age_by_group ?l)
      = (JDict [(''average_age'',
                  JObj [(code_points ''A'', JVal (PFloat (Fl 25))),
                        (code_points ''B'', JVal (PFloat (Fl 25)))])], 200)"
    by (simp add: average_defs)
  from average_age_by_group_correct[OF r]
  have "fst (get_average_age_by_group ?s) = (error_body ''No users found'', 404) \<longleftrightarrow> ?s = []"
    by blast
  then have "fst (get_average_age_by_group ?l) \<noteq> (error_body ''No users found'', 404)"
    unfolding s by simp
  with r s v show ?thesis by blast
qed

section \<open>Deleting a user\<close>

lemma find_first_split:
  assumes "find P xs = Some x"
  shows "\<exists>pre post. xs = pre @ x # post \<and> P x \<and> (\<forall>v\<in>set pre. \<not> P v)"
  using assms
proof (induction xs)
  case Nil
  then show ?case by simp
next
  case (Cons y ys)
  show ?case
  proof (cases "P y")
    case True
    with Cons.prems have "x = y" by simp
    with True have "y # ys = [] @ x # ys \<and> P x \<and> (\<forall>v\<in>set []. \<not> P v)" by simp
    then show ?thesis by blast
  next
    case False
    with Cons.prems have "find P ys = Some x" by simp
    from Cons.IH[OF this] obtain pre post
      where "ys = pre @ x # post" "P x" "\<forall>v\<in>set pre. \<not> P v" by blast
    with False have "y # ys = (y # pre) @ x # post \<and> P x \<and> (\<forall>v\<in>set (y # pre). \<not> P v)"
      by simp
    then show ?thesis by blast
  qed
qed

lemma find_None_all: "find P xs = None \<longleftrightarrow> (\<forall>x\<in>set xs. \<not> P x)"
  by (induction xs) auto

text \<open>
  \<^bold>\<open>C7\<close> (delete semantics). The path parameter is compared with the stored names as it
  is, character for character. If some record has that name, the registry is split at the
  first such record: exactly that record is removed, the records before and after it stay,
  in their order, and the answer is 200. If no record has that name the answer is
  404 \<^verbatim>\<open>User not found\<close> and the registry is unchanged.
\<close>

theorem delete_user_semantics:
  "((\<exists>u\<in>set us. Name u = name) \<longrightarrow>
      (\<exists>pre u post. us = pre @ u # post \<and> Name u = name \<and> (\<forall>v\<in>set pre. Name v \<noteq> name) \<and>
         delete_user name us =
           ((JDict [(''message'', JVal (PStr (''User '' @ name @ '' deleted successfully'')))], 200),
            pre @ post)))
   \<and> ((\<forall>u\<in>set us. Name u \<noteq> name) \<longrightarrow>
        delete_user name us = ((error_body ''User not found'', 404), us))"
proof (intro conjI impI)
  assume "\<exists>u\<in>set us. Name u = name"
  then have "find (\<lambda>u. Name u = name) us \<noteq> None" by (simp add: find_None_all)
  then obtain u where f: "find (\<lambda>u. Name u = name) us = Some u" by blast
  from find_first_split[OF f] obtain pre post
    where us: "us = pre @ u # post" and u: "Name u = name" and pre: "\<forall>v\<in>set pre. Name v \<noteq> name"
    by blast
  from u pre have "u \<notin> set pre" by blast
  then have "remove1 u us = pre @ post" by (simp add: us remove1_append)
  with f have "delete_user name us =
      ((JDict [(''message'', JVal (PStr (''User '' @ name @ '' deleted successfully'')))], 200),
       pre @ post)"
    by (simp add: delete_user_def)
  with us u pre show "\<exists>pre u post. us = pre @ u # post \<and> Name u = name \<and>
      (\<forall>v\<in>set pre. Name v \<noteq> name) \<and>
      delete_user name us =
        ((JDict [(''message'', JVal (PStr (''User '' @ name @ '' deleted successfully'')))], 200),
         pre @ post)"
    by blast
next
  assume "\<forall>u\<in>set us. Name u \<noteq> name"
  then have "find (\<lambda>u. Name u = name) us = None" by (simp add: find_None_all)
  then show "delete_user name us = ((error_body ''User not found'', 404), us)"
    by (simp add: delete_user_def)
qed

theorem delete_user_semantics_witness:
  "snd (delete_user ''John''
      [\<lparr>Name = ''Amy'', Age = 41\<rparr>, \<lparr>Name = ''John'', Age = 30\<rparr>, \<lparr>Name = ''Bob'', Age = 25\<rparr>])
     = [\<lparr>Name = ''Amy'', Age = 41\<rparr>, \<lparr>Name = ''Bob'', Age = 25\<rparr>]
   \<and> delete_user '' John''
      [\<lparr>Name = ''Amy'', Age = 41\<rparr>, \<lparr>Name = ''John'', Age = 30\<rparr>, \<lparr>Name = ''Bob'', Age = 25\<rparr>]
     = ((error_body ''User not found'', 404),
        [\<lparr>Name = ''Amy'', Age = 41\<rparr>, \<lparr>Name = ''John'', Age = 30\<rparr>, \<lparr>Name = ''Bob'', Age = 25\<rparr>])"
proof -
  let ?us = "[\<lparr>Name = ''Amy'', Age = 41\<rparr>, \<lparr>Name = ''John'', Age = 30\<rparr>, \<lparr>Name = ''Bob'', Age = 25\<rparr>]"
  have ex: "\<exists>u\<in>set ?us. Name u = ''John''" by simp
  have nex: "\<forall>u\<in>set ?us. Name u \<noteq> '' John''" by simp
  from delete_user_semantics[of ?us "''John''"] ex obtain pre u post
    where split: "?us = pre @ u # post" "Name u = ''John''" "\<forall>v\<in>set pre. Name v \<noteq> ''John''"
      and del: "snd (delete_user ''John'' ?us) = pre @ post"
    by auto
  have "pre = [\<lparr>Name = ''Amy'', Age = 41\<rparr>] \<and> post = [\<lparr>Name = ''Bob'', Age = 25\<rparr>]"
    using split by (auto simp: append_eq_Cons_conv Cons_eq_append_conv)
  with del have a: "snd (delete_user ''John'' ?us)
      = [\<lparr>Name = ''Amy'', Age = 41\<rparr>, \<lparr>Name = ''Bob'', Age = 25\<rparr>]"
    by simp
  from delete_user_semantics[of ?us "'' John''"] nex
  have b: "delete_user '' John'' ?us = ((error_body ''User not found'', 404), ?us)" by blast
  from a b show ?thesis by blast
qed

section \<open>The reads\<close>

text \<open>
  \<^bold>\<open>C10\<close> (the reads are pure). \<^verbatim>\<open>GET /users\<close> and \<^verbatim>\<open>GET /users/average-age\<close> return
  the registry exactly as they found it, whatever it holds.
\<close>

theorem read_operations_pure:
  "snd (get_users us) = us \<and> snd (get_average_age_by_group us) = us"
  by (simp add: get_users_def get_average_age_by_group_def)

end
